theory Spec2Isabelle
  imports Main
begin

section \<open>Number slots and the allocation block of participant mode\<close>

text \<open>
  A meeting's pool is the table \<^verbatim>\<open>public.{table_name}\<close> created by
  \<^verbatim>\<open>create_meeting_table\<close>: columns \<^verbatim>\<open>number\<close>, \<^verbatim>\<open>assigned\<close>, \<^verbatim>\<open>assigned_at\<close>
  and \<^verbatim>\<open>user_id\<close> (the generated \<^verbatim>\<open>id\<close> column is never read by the program).
  A table is the list of its rows in the order in which the store returns them.
\<close>

record slot =
  number :: int
  assigned :: bool
  assigned_at :: "string option"
  user_id :: "string option"

type_synonym pool = "slot list"

text \<open>
  The three requests of the allocation block (\<^verbatim>\<open>app.py\<close>, lines 220 to 242), on a store
  that answers them:
  \<^verbatim>\<open>select("number").eq("user_id", user_id)\<close>,
  \<^verbatim>\<open>select("*").eq("assigned", False)\<close> and
  \<^verbatim>\<open>update({...}).eq("number", assigned_number)\<close>.
  An equality filter never matches a null column.
\<close>

definition select_user_id_eq :: "pool \<Rightarrow> string \<Rightarrow> slot list" where
  "select_user_id_eq p u = filter (\<lambda>s. user_id s = Some u) p"

definition select_assigned_false :: "pool \<Rightarrow> slot list" where
  "select_assigned_false p = filter (\<lambda>s. \<not> assigned s) p"

definition update_number_eq :: "pool \<Rightarrow> int \<Rightarrow> string \<Rightarrow> string \<Rightarrow> pool" where
  "update_number_eq p n now u =
     map (\<lambda>s. if number s = n
              then s\<lparr>assigned := True, assigned_at := Some now, user_id := Some u\<rparr>
              else s) p"

text \<open>
  \<^verbatim>\<open>random.choice(xs)\<close> on a non-empty list returns one of its elements; the random
  draw is the parameter \<open>r\<close>, so that every possible choice is some \<open>r\<close>.
\<close>

definition random_choice :: "nat \<Rightarrow> 'a list \<Rightarrow> 'a" where
  "random_choice r xs = xs ! (r mod length xs)"

datatype alloc_error = PoolExhausted

text \<open>
  The block itself. \<open>u\<close> is \<^verbatim>\<open>st.session_state["user_id"]\<close>, \<open>now\<close> is
  \<^verbatim>\<open>datetime.now().isoformat()\<close>. The result is the number stored in
  \<^verbatim>\<open>st.session_state["assigned_number"]\<close>, or \<open>PoolExhausted\<close> for the two branches
  that show the message that all numbers are taken and stop; the second component is
  the pool table afterwards.
\<close>

definition assign_or_get :: "pool \<Rightarrow> string \<Rightarrow> nat \<Rightarrow> string \<Rightarrow> (alloc_error + int) \<times> pool" where
  "assign_or_get p u r now =
     (case select_user_id_eq p u of
        s # _ \<Rightarrow> (Inr (number s), p)
      | [] \<Rightarrow>
          (case select_assigned_false p of
             [] \<Rightarrow> (Inl PoolExhausted, p)
           | f # fs \<Rightarrow>
               (let available_numbers = map number (f # fs);
                    assigned_number = random_choice r available_numbers
                in (Inr assigned_number, update_number_eq p assigned_number now u))))"

text \<open>
  Sequential use of the block: one page load after the other, each a triple of the
  session identity, the random draw and the time, on the pool the previous one left.
  The outcome of each load is kept next to its identity.
\<close>

fun alloc_run :: "pool \<Rightarrow> (string \<times> nat \<times> string) list \<Rightarrow>
    (string \<times> (alloc_error + int)) list \<times> pool" where
  "alloc_run p [] = ([], p)"
| "alloc_run p ((u, r, now) # reqs) =
     (case assign_or_get p u r now of
        (out, p1) \<Rightarrow> (case alloc_run p1 reqs of (outs, p2) \<Rightarrow> ((u, out) # outs, p2)))"

text \<open>
  The pools the program can produce: \<^verbatim>\<open>create_meeting_table\<close> inserts each number once
  and unbound, and the allocation block is the only code that writes a slot. Hence no
  number occurs twice, a bound slot is an assigned one, and at most one slot is bound to
  an identity.
\<close>

definition pool_ok :: "pool \<Rightarrow> bool" where
  "pool_ok p \<longleftrightarrow>
     distinct (map number p) \<and>
     (\<forall>s\<in>set p. user_id s \<noteq> None \<longrightarrow> assigned s) \<and>
     (\<forall>s\<in>set p. \<forall>t\<in>set p.
        user_id s \<noteq> None \<and> user_id s = user_id t \<longrightarrow> number s = number t)"

definition owns :: "pool \<Rightarrow> string \<Rightarrow> int \<Rightarrow> bool" where
  "owns p u n \<longleftrightarrow> (\<exists>s\<in>set p. number s = n \<and> user_id s = Some u)"

section \<open>The store, its requests and its failures\<close>

text \<open>
  The tables of the remote store that the program reads and writes. Rows keep the
  source's column names; a column name used by several tables gets the table's initial
  as a prefix. The per-meeting pool tables are created and dropped at run time, so they
  are a partial map from table names. Identity columns are filled by the store from a
  counter per table.
\<close>

record meeting =
  m_id :: int
  table_name :: string
  meeting_name :: string
  created_at :: string
  max_number :: int

record form =
  f_id :: int
  form_name :: string
  f_table_name :: string
  f_created_at :: string

record question =
  q_id :: int
  q_form_id :: int
  question_text :: string
  question_type :: string
  correct_answer :: "string option"

record option_row =
  o_id :: int
  o_question_id :: int
  option_text :: string

record response =
  r_form_id :: int
  participant_id :: string
  r_question_id :: int
  answer :: string

record database =
  meetings_metadata :: "meeting list"
  next_meeting_id :: int
  pools :: "string \<rightharpoonup> pool"
  meeting_forms :: "(int \<times> int) list"
  forms_metadata :: "form list"
  next_form_id :: int
  questions :: "question list"
  next_question_id :: int
  options :: "option_row list"
  next_option_id :: int
  responses :: "response list"

text \<open>
  Every \<^verbatim>\<open>.execute()\<close> of the source is one request. \<open>meeting_forms\<close> rows are pairs
  \<open>(meeting_id, form_id)\<close>.
\<close>

datatype request =
    InsertMeeting string string string int
  | CreateTable string
  | SelectLimit1 string
  | InsertSlots string "slot list"
  | InsertLink int int
  | DeleteMeeting string
  | DropTable string
  | SelectMeetings
  | SelectMeetingByTable string
  | SelectForms
  | SelectLinks int
  | SelectFormsIn "int list"
  | SelectResponsesOf string
  | SelectFormByTable string
  | SelectQuestionsOf int
  | SelectSlotsOfUser string string
  | SelectUnassigned string
  | UpdateSlot string int string string
  | SelectOptionsOf int
  | InsertResponse response
  | InsertForm string string string
  | InsertQuestion int string string "string option"
  | InsertOption int string
  | UpdateCorrectAnswer int string
  | SelectResponsesIn "int list"
  | SelectQuestion int
  | SelectOption string

text \<open>
  What a request does to the tables when the store carries it out; \<open>None\<close> when the
  store rejects it: creating a table that exists, or reading or writing a pool table that
  does not. A select changes nothing. No trigger, cascade or constraint is assumed beyond
  what the source itself creates.
\<close>

fun effect :: "request \<Rightarrow> database \<Rightarrow> database option" where
  "effect (InsertMeeting tn mn now mx) d =
     Some (d\<lparr>meetings_metadata := meetings_metadata d @
                [\<lparr>m_id = next_meeting_id d, table_name = tn, meeting_name = mn,
                  created_at = now, max_number = mx\<rparr>],
              next_meeting_id := next_meeting_id d + 1\<rparr>)"
| "effect (CreateTable tn) d =
     (case pools d tn of
        None \<Rightarrow> Some (d\<lparr>pools := (pools d)(tn \<mapsto> [])\<rparr>)
      | Some _ \<Rightarrow> None)"
| "effect (SelectLimit1 tn) d = (case pools d tn of None \<Rightarrow> None | Some _ \<Rightarrow> Some d)"
| "effect (InsertSlots tn rows) d =
     (case pools d tn of
        None \<Rightarrow> None
      | Some p \<Rightarrow> Some (d\<lparr>pools := (pools d)(tn \<mapsto> p @ rows)\<rparr>))"
| "effect (InsertLink mid fid) d = Some (d\<lparr>meeting_forms := meeting_forms d @ [(mid, fid)]\<rparr>)"
| "effect (DeleteMeeting tn) d =
     Some (d\<lparr>meetings_metadata := filter (\<lambda>m. table_name m \<noteq> tn) (meetings_metadata d)\<rparr>)"
| "effect (DropTable tn) d = Some (d\<lparr>pools := (pools d)(tn := None)\<rparr>)"
| "effect (SelectSlotsOfUser tn u) d = (case pools d tn of None \<Rightarrow> None | Some _ \<Rightarrow> Some d)"
| "effect (SelectUnassigned tn) d = (case pools d tn of None \<Rightarrow> None | Some _ \<Rightarrow> Some d)"
| "effect (UpdateSlot tn n now u) d =
     (case pools d tn of
        None \<Rightarrow> None
      | Some p \<Rightarrow> Some (d\<lparr>pools := (pools d)(tn \<mapsto> update_number_eq p n now u)\<rparr>))"
| "effect (InsertResponse r) d = Some (d\<lparr>responses := responses d @ [r]\<rparr>)"
| "effect (InsertForm fn tn now) d =
     Some (d\<lparr>forms_metadata := forms_metadata d @
                [\<lparr>f_id = next_form_id d, form_name = fn, f_table_name = tn, f_created_at = now\<rparr>],
              next_form_id := next_form_id d + 1\<rparr>)"
| "effect (InsertQuestion fid txt ty corr) d =
     Some (d\<lparr>questions := questions d @
                [\<lparr>q_id = next_question_id d, q_form_id = fid, question_text = txt,
                  question_type = ty, correct_answer = corr\<rparr>],
              next_question_id := next_question_id d + 1\<rparr>)"
| "effect (InsertOption qid txt) d =
     Some (d\<lparr>options := options d @
                [\<lparr>o_id = next_option_id d, o_question_id = qid, option_text = txt\<rparr>],
              next_option_id := next_option_id d + 1\<rparr>)"
| "effect (UpdateCorrectAnswer qid a) d =
     Some (d\<lparr>questions :=
              map (\<lambda>q. if q_id q = qid then q\<lparr>correct_answer := Some a\<rparr> else q) (questions d)\<rparr>)"
| "effect _ d = Some d"

text \<open>
  The program's view of the store: the tables, the failures still to come (one flag per
  request, \<open>True\<close> when the request raises before it reaches the tables, as on a lost
  connection; none left means no failure), the requests issued so far, each with whether
  it was answered, and the error messages shown with \<^verbatim>\<open>st.error\<close> by the handlers of
  the source.
\<close>

datatype message =
    Erro_criar_tabela
  | Erro_rollback
  | Erro_recuperar_reunioes
  | Erro_recuperar_formularios
  | Erro_formularios_reuniao
  | Erro_formularios_respondidos
  | Erro_atribuir_numero

record world =
  db :: database
  faults :: "bool list"
  trace :: "(request \<times> bool) list"
  shown :: "message list"

definition execute :: "request \<Rightarrow> world \<Rightarrow> bool \<times> world" where
  "execute rq w =
     (let raises = (case faults w of [] \<Rightarrow> False | b # _ \<Rightarrow> b);
          w1 = w\<lparr>faults := tl (faults w)\<rparr>
      in if raises then (False, w1\<lparr>trace := trace w @ [(rq, False)]\<rparr>)
         else (case effect rq (db w) of
                 None \<Rightarrow> (False, w1\<lparr>trace := trace w @ [(rq, False)]\<rparr>)
               | Some d \<Rightarrow> (True, w1\<lparr>db := d, trace := trace w @ [(rq, True)]\<rparr>)))"

definition st_error :: "message \<Rightarrow> world \<Rightarrow> world" where
  "st_error m w = w\<lparr>shown := shown w @ [m]\<rparr>"

text \<open>
  The allocation block of participant mode against the store (lines 220 to 242 with
  the handler of lines 264 to 266): each of its three requests may raise, and then the
  handler shows an error and stops the page. When the requests are answered the block
  is \<open>assign_or_get\<close> on the pool table.
\<close>

definition allocation_block ::
  "world \<Rightarrow> string \<Rightarrow> string \<Rightarrow> nat \<Rightarrow> string \<Rightarrow> (alloc_error + int) option \<times> world" where
  "allocation_block w tn u r now =
     (case execute (SelectSlotsOfUser tn u) w of
        (False, w1) \<Rightarrow> (None, st_error Erro_atribuir_numero w1)
      | (True, w1) \<Rightarrow>
     (case select_user_id_eq (case pools (db w1) tn of Some p \<Rightarrow> p | None \<Rightarrow> []) u of
        s # _ \<Rightarrow> (Some (Inr (number s)), w1)
      | [] \<Rightarrow>
     (case execute (SelectUnassigned tn) w1 of
        (False, w2) \<Rightarrow> (None, st_error Erro_atribuir_numero w2)
      | (True, w2) \<Rightarrow>
     (case select_assigned_false (case pools (db w2) tn of Some p \<Rightarrow> p | None \<Rightarrow> []) of
        [] \<Rightarrow> (Some (Inl PoolExhausted), w2)
      | f # fs \<Rightarrow>
          (let available_numbers = map number (f # fs);
               assigned_number = random_choice r available_numbers
           in case execute (UpdateSlot tn assigned_number now u) w2 of
                (False, w3) \<Rightarrow> (None, st_error Erro_atribuir_numero w3)
              | (True, w3) \<Rightarrow> (Some (Inr assigned_number), w3))))))"

text \<open>The requests a call has issued: what it appended to the trace.\<close>

definition new_trace :: "world \<Rightarrow> world \<Rightarrow> (request \<times> bool) list" where
  "new_trace w w' = drop (length (trace w)) (trace w')"

definition new_shown :: "world \<Rightarrow> world \<Rightarrow> message list" where
  "new_shown w w' = drop (length (shown w)) (shown w')"

section \<open>Pool creation\<close>

text \<open>
  \<^verbatim>\<open>check_table_exists\<close> (lines 47 to 53): true when the probing select is answered,
  false when it raises. It is applied to pool tables only.
\<close>

definition check_table_exists :: "world \<Rightarrow> string \<Rightarrow> bool \<times> world" where
  "check_table_exists w tn = execute (SelectLimit1 tn) w"

text \<open>
  The rows of the batch inserts (lines 81 to 86):
  \<^verbatim>\<open>for i in range(0, max_number, batch_size)\<close> with
  \<^verbatim>\<open>end = min(i + batch_size, max_number)\<close> and the rows for
  \<^verbatim>\<open>j in range(i+1, end+1)\<close>. The source fixes \<^verbatim>\<open>batch_size = 100\<close>; the loop is
  written for any step, and yields nothing for a step that is not positive (Python's
  \<^verbatim>\<open>range\<close> is empty for a negative step here and raises for the step 0).
\<close>

definition unassigned_row :: "int \<Rightarrow> slot" where
  "unassigned_row j = \<lparr>number = j, assigned = False, assigned_at = None, user_id = None\<rparr>"

function batches :: "int \<Rightarrow> int \<Rightarrow> int \<Rightarrow> slot list list" where
  "batches bs i mx =
     (if 0 < bs \<and> i < mx
      then map unassigned_row [i + 1 .. min (i + bs) mx] # batches bs (i + bs) mx
      else [])"
  by pat_completeness auto
termination
  by (relation "measure (\<lambda>(bs, i, mx). nat (mx - i))") auto

declare batches.simps [simp del]

definition batch_size :: int where
  "batch_size = 100"

fun insert_batches :: "string \<Rightarrow> slot list list \<Rightarrow> world \<Rightarrow> bool \<times> world" where
  "insert_batches tn [] w = (True, w)"
| "insert_batches tn (data # rest) w =
     (case execute (InsertSlots tn data) w of
        (True, w1) \<Rightarrow> insert_batches tn rest w1
      | (False, w1) \<Rightarrow> (False, w1))"

fun insert_links :: "int \<Rightarrow> int list \<Rightarrow> world \<Rightarrow> bool \<times> world" where
  "insert_links meeting_id [] w = (True, w)"
| "insert_links meeting_id (form_id # rest) w =
     (case execute (InsertLink meeting_id form_id) w of
        (True, w1) \<Rightarrow> insert_links meeting_id rest w1
      | (False, w1) \<Rightarrow> (False, w1))"

text \<open>
  The \<^verbatim>\<open>try\<close> block of \<^verbatim>\<open>create_meeting_table\<close> (lines 57 to 95): \<open>True\<close> when it
  reaches \<^verbatim>\<open>return True\<close>, \<open>False\<close> when a statement raises, with the state at the
  raise. \<open>meeting_id\<close> is the \<^verbatim>\<open>id\<close> of the row the insert returns, which is the value of
  the store's counter before the insert. \<^verbatim>\<open>selected_forms\<close> is \<^verbatim>\<open>None\<close> or a list;
  \<open>now\<close> is the time written into \<^verbatim>\<open>created_at\<close>. The pause of one second is left out.
\<close>

definition create_meeting_try ::
  "world \<Rightarrow> string \<Rightarrow> string \<Rightarrow> int \<Rightarrow> int list option \<Rightarrow> string \<Rightarrow> bool \<times> world" where
  "create_meeting_try w tn mn mx selected_forms now =
     (let meeting_id = next_meeting_id (db w) in
      case execute (InsertMeeting tn mn now mx) w of
        (False, w1) \<Rightarrow> (False, w1)
      | (True, w1) \<Rightarrow>
      (case execute (CreateTable tn) w1 of
        (False, w2) \<Rightarrow> (False, w2)
      | (True, w2) \<Rightarrow>
      (case check_table_exists w2 tn of
        (False, w3) \<Rightarrow> (False, w3)
      | (True, w3) \<Rightarrow>
      (case insert_batches tn (batches batch_size 0 mx) w3 of
        (False, w4) \<Rightarrow> (False, w4)
      | (True, w4) \<Rightarrow>
      (case selected_forms of
        None \<Rightarrow> (True, w4)
      | Some fs \<Rightarrow> insert_links meeting_id fs w4)))))"

text \<open>
  \<^verbatim>\<open>create_meeting_table\<close> (lines 55 to 103). The handler shows the error, then tries
  the two rollback requests in one \<^verbatim>\<open>try\<close>, shows a second error when one of them
  raises, and returns \<^verbatim>\<open>False\<close>.
\<close>

definition create_meeting_table ::
  "world \<Rightarrow> string \<Rightarrow> string \<Rightarrow> int \<Rightarrow> int list option \<Rightarrow> string \<Rightarrow> bool \<times> world" where
  "create_meeting_table w tn mn mx selected_forms now =
     (case create_meeting_try w tn mn mx selected_forms now of
        (True, w1) \<Rightarrow> (True, w1)
      | (False, w1) \<Rightarrow>
          (let w2 = st_error Erro_criar_tabela w1 in
           case execute (DeleteMeeting tn) w2 of
             (False, w3) \<Rightarrow> (False, st_error Erro_rollback w3)
           | (True, w3) \<Rightarrow>
               (case execute (DropTable tn) w3 of
                  (False, w4) \<Rightarrow> (False, st_error Erro_rollback w4)
                | (True, w4) \<Rightarrow> (False, w4))))"

text \<open>The link rows that answered inserts of a trace have added.\<close>

fun links_inserted :: "(request \<times> bool) list \<Rightarrow> (int \<times> int) list" where
  "links_inserted [] = []"
| "links_inserted ((InsertLink m f, True) # t) = (m, f) # links_inserted t"
| "links_inserted (_ # t) = links_inserted t"

text \<open>
  A stretch of the trace in which every request was answered, and one that ends with the
  first request that was not.
\<close>

definition all_answered :: "(request \<times> bool) list \<Rightarrow> bool" where
  "all_answered t \<longleftrightarrow> list_all snd t"

definition stopped_at_failure :: "(request \<times> bool) list \<Rightarrow> bool" where
  "stopped_at_failure t \<longleftrightarrow> t \<noteq> [] \<and> \<not> snd (last t) \<and> list_all snd (butlast t)"

text \<open>A store with no rows and no pool table, for the examples.\<close>

definition empty_db :: database where
  "empty_db = \<lparr>meetings_metadata = [], next_meeting_id = 1, pools = Map.empty,
     meeting_forms = [], forms_metadata = [], next_form_id = 1, questions = [],
     next_question_id = 1, options = [], next_option_id = 1, responses = []\<rparr>"

definition world_of :: "database \<Rightarrow> bool list \<Rightarrow> world" where
  "world_of d fl = \<lparr>db = d, faults = fl, trace = [], shown = []\<rparr>"

text \<open>
  What a stretch of the program does, as far as the trace, the messages and the link
  table go: it appends \<open>t\<close> to the trace, shows nothing, ends at the first failure when
  it reports one, and appends to \<open>meeting_forms\<close> the links of its answered inserts.
\<close>

definition call :: "world \<Rightarrow> world \<Rightarrow> bool \<Rightarrow> (request \<times> bool) list \<Rightarrow> bool" where
  "call w w' ok t \<longleftrightarrow>
     trace w' = trace w @ t \<and> shown w' = shown w \<and>
     (if ok then all_answered t else stopped_at_failure t) \<and>
     meeting_forms (db w') = meeting_forms (db w) @ links_inserted t"

section \<open>Catalog accessors\<close>

text \<open>
  The four read-only helpers (lines 105 to 143). Each returns a Python list (a set for
  \<^verbatim>\<open>get_answered_forms\<close>): in the handler it shows an error and returns the empty
  collection.
\<close>

definition get_available_meetings :: "world \<Rightarrow> meeting list \<times> world" where
  "get_available_meetings w =
     (case execute SelectMeetings w of
        (True, w1) \<Rightarrow> (meetings_metadata (db w1), w1)
      | (False, w1) \<Rightarrow> ([], st_error Erro_recuperar_reunioes w1))"

definition get_available_forms :: "world \<Rightarrow> form list \<times> world" where
  "get_available_forms w =
     (case execute SelectForms w of
        (True, w1) \<Rightarrow> (forms_metadata (db w1), w1)
      | (False, w1) \<Rightarrow> ([], st_error Erro_recuperar_formularios w1))"

definition get_forms_for_meeting :: "world \<Rightarrow> int \<Rightarrow> form list \<times> world" where
  "get_forms_for_meeting w meeting_id =
     (case execute (SelectLinks meeting_id) w of
        (False, w1) \<Rightarrow> ([], st_error Erro_formularios_reuniao w1)
      | (True, w1) \<Rightarrow>
          (let form_ids = map snd (filter (\<lambda>l. fst l = meeting_id) (meeting_forms (db w1)))
           in if form_ids \<noteq> []
              then (case execute (SelectFormsIn form_ids) w1 of
                      (False, w2) \<Rightarrow> ([], st_error Erro_formularios_reuniao w2)
                    | (True, w2) \<Rightarrow>
                        (filter (\<lambda>f. f_id f \<in> set form_ids) (forms_metadata (db w2)), w2))
              else ([], w1)))"

definition get_answered_forms :: "world \<Rightarrow> string \<Rightarrow> int set \<times> world" where
  "get_answered_forms w pid =
     (case execute (SelectResponsesOf pid) w of
        (True, w1) \<Rightarrow>
          (set (map r_form_id (filter (\<lambda>r. participant_id r = pid) (responses (db w1)))), w1)
      | (False, w1) \<Rightarrow> ({}, st_error Erro_formularios_respondidos w1))"

section \<open>Python values\<close>

text \<open>\<^verbatim>\<open>str\<close> of an integer: its decimal digits, with a minus sign when negative.\<close>

definition digit_char :: "nat \<Rightarrow> char" where
  "digit_char n = ''0123456789'' ! (n mod 10)"

function str_nat :: "nat \<Rightarrow> string" where
  "str_nat n = (if n < 10 then [digit_char n] else str_nat (n div 10) @ [digit_char n])"
  by pat_completeness auto
termination
  by (relation "measure id") auto

declare str_nat.simps [simp del]

definition str_int :: "int \<Rightarrow> string" where
  "str_int i = (if i < 0 then CHR ''-'' # str_nat (nat (- i)) else str_nat (nat i))"

text \<open>
  The values held by the \<^verbatim>\<open>responses\<close> dictionary of the form page: the text typed, the
  \<^verbatim>\<open>id\<close> of the chosen option, or \<^verbatim>\<open>None\<close>; their truth value and their \<^verbatim>\<open>str\<close>.
\<close>

datatype py_value = PyStr string | PyInt int | PyNone

fun truthy :: "py_value \<Rightarrow> bool" where
  "truthy (PyStr s) = (s \<noteq> [])"
| "truthy (PyInt i) = (i \<noteq> 0)"
| "truthy PyNone = False"

fun py_str :: "py_value \<Rightarrow> string" where
  "py_str (PyStr s) = s"
| "py_str (PyInt i) = str_int i"
| "py_str PyNone = ''None''"

text \<open>\<^verbatim>\<open>xs.index(x)\<close>: the first position of \<open>x\<close>, or nothing where Python raises.\<close>

fun index_of :: "'a \<Rightarrow> 'a list \<Rightarrow> nat option" where
  "index_of x [] = None"
| "index_of x (y # ys) =
     (if x = y then Some 0 else (case index_of x ys of None \<Rightarrow> None | Some i \<Rightarrow> Some (Suc i)))"

text \<open>A statement outside every handler either returns or ends the script run.\<close>

datatype 'a attempt = Raise | Return 'a

section \<open>The form page of a participant\<close>

text \<open>
  What the participant does on the page: the text typed into the field of a question,
  the option text chosen in the radio group of a question (if any), and whether the
  submit button was pressed. Both are looked up by question \<^verbatim>\<open>id\<close>, as the widget keys
  are.
\<close>

record form_input =
  typed :: "int \<Rightarrow> string"
  picked :: "int \<Rightarrow> string option"
  pressed :: bool

datatype form_outcome =
    Crashed
  | FormNotFound
  | NoQuestions
  | Unauthorized
  | AlreadySubmitted
  | FormShown
  | ValidationError
  | Submitted

text \<open>
  The scan of lines 299 to 307 over the listed meetings: the first pool with a row bound
  to the identity gives \<^verbatim>\<open>participant_id_default = str(number)\<close> and the meeting's table
  name; both stay empty strings when no pool has one.
\<close>

fun scan_meetings :: "string \<Rightarrow> meeting list \<Rightarrow> world \<Rightarrow> (string \<times> string) attempt \<times> world" where
  "scan_meetings u [] w = (Return ([], []), w)"
| "scan_meetings u (m # ms) w =
     (case execute (SelectSlotsOfUser (table_name m) u) w of
        (False, w1) \<Rightarrow> (Raise, w1)
      | (True, w1) \<Rightarrow>
          (case pools (db w1) (table_name m) of
             None \<Rightarrow> (Raise, w1)
           | Some p \<Rightarrow>
               (case select_user_id_eq p u of
                  s # _ \<Rightarrow> (Return (str_int (number s), table_name m), w1)
                | [] \<Rightarrow> scan_meetings u ms w1)))"

text \<open>
  The widgets of lines 320 to 333, filling the dictionary \<^verbatim>\<open>responses\<close> in the order of
  the questions (a dictionary keeps the position of a key that is assigned again). A
  question of another type gets no entry.
\<close>

definition dict_set :: "'k \<Rightarrow> 'v \<Rightarrow> ('k \<times> 'v) list \<Rightarrow> ('k \<times> 'v) list" where
  "dict_set k v al =
     (if k \<in> fst ` set al then map (\<lambda>(k', v'). if k' = k then (k', v) else (k', v')) al
      else al @ [(k, v)])"

fun collect_responses ::
  "question list \<Rightarrow> form_input \<Rightarrow> (int \<times> py_value) list \<Rightarrow> world
     \<Rightarrow> (int \<times> py_value) list attempt \<times> world" where
  "collect_responses [] inp acc w = (Return acc, w)"
| "collect_responses (q # qs) inp acc w =
     (if question_type q = ''text''
      then collect_responses qs inp (dict_set (q_id q) (PyStr (typed inp (q_id q))) acc) w
      else if question_type q = ''multiple_choice''
      then (case execute (SelectOptionsOf (q_id q)) w of
              (False, w1) \<Rightarrow> (Raise, w1)
            | (True, w1) \<Rightarrow>
                (let opts = filter (\<lambda>opt. o_question_id opt = q_id q) (options (db w1));
                     option_texts = map option_text opts;
                     option_ids = map o_id opts
                 in case picked inp (q_id q) of
                      None \<Rightarrow> collect_responses qs inp (dict_set (q_id q) PyNone acc) w1
                    | Some selected_option \<Rightarrow>
                        (case index_of selected_option option_texts of
                           None \<Rightarrow> (Raise, w1)
                         | Some i \<Rightarrow>
                             collect_responses qs inp
                               (dict_set (q_id q) (PyInt (option_ids ! i)) acc) w1)))
      else collect_responses qs inp acc w)"

text \<open>The insert loop of lines 338 to 345: one row per entry of the dictionary.\<close>

definition response_row :: "int \<Rightarrow> string \<Rightarrow> int \<times> py_value \<Rightarrow> response" where
  "response_row form_id pid e =
     \<lparr>r_form_id = form_id, participant_id = pid, r_question_id = fst e, answer = py_str (snd e)\<rparr>"

fun insert_responses :: "int \<Rightarrow> string \<Rightarrow> (int \<times> py_value) list \<Rightarrow> world \<Rightarrow> bool \<times> world" where
  "insert_responses form_id pid [] w = (True, w)"
| "insert_responses form_id pid (e # rest) w =
     (case execute (InsertResponse (response_row form_id pid e)) w of
        (False, w1) \<Rightarrow> (False, w1)
      | (True, w1) \<Rightarrow> insert_responses form_id pid rest w1)"

text \<open>
  The mode \<^verbatim>\<open>participant_form\<close> (lines 279 to 356) for the table name and the session
  identity of the link, from the point where the client has been obtained. The requests
  for the form, its questions, the pools, the options and the inserts are outside every
  handler: when one raises, the script run ends there (\<open>Crashed\<close>). The two accessors
  handle their own failures. \<open>FormShown\<close> is the page with the form when the button
  has not been pressed.
\<close>

definition participant_form :: "world \<Rightarrow> string \<Rightarrow> string \<Rightarrow> form_input \<Rightarrow> form_outcome \<times> world" where
  "participant_form w table u inp =
     (case execute (SelectFormByTable table) w of
        (False, w1) \<Rightarrow> (Crashed, w1)
      | (True, w1) \<Rightarrow>
     (case filter (\<lambda>f. f_table_name f = table) (forms_metadata (db w1)) of
        [] \<Rightarrow> (FormNotFound, w1)
      | form_info # _ \<Rightarrow>
     (let form_id = f_id form_info in
      case execute (SelectQuestionsOf form_id) w1 of
        (False, w2) \<Rightarrow> (Crashed, w2)
      | (True, w2) \<Rightarrow>
     (let qs = filter (\<lambda>q. q_form_id q = form_id) (questions (db w2)) in
      if qs = [] then (NoQuestions, w2) else
     (case get_available_meetings w2 of (meetings, w3) \<Rightarrow>
     (case scan_meetings u meetings w3 of
        (Raise, w4) \<Rightarrow> (Crashed, w4)
      | (Return (participant_id_default, meeting_table_name), w4) \<Rightarrow>
      if participant_id_default = [] then (Unauthorized, w4) else
     (case get_answered_forms w4 participant_id_default of (answered_forms, w5) \<Rightarrow>
      if form_id \<in> answered_forms then (AlreadySubmitted, w5) else
     (case collect_responses qs inp [] w5 of
        (Raise, w6) \<Rightarrow> (Crashed, w6)
      | (Return rs, w6) \<Rightarrow>
      if \<not> pressed inp then (FormShown, w6)
      else if list_all (\<lambda>e. truthy (snd e)) rs
      then (case insert_responses form_id participant_id_default rs w6 of
              (False, w7) \<Rightarrow> (Crashed, w7)
            | (True, w7) \<Rightarrow> (Submitted, w7))
      else (ValidationError, w6)))))))))"

text \<open>
  The first pool, in the listing order of \<open>meetings_metadata\<close>, in which the identity
  holds a slot, with the number of the first such slot.
\<close>

definition holds_slot :: "database \<Rightarrow> string \<Rightarrow> meeting \<Rightarrow> bool" where
  "holds_slot d u m =
     (case pools d (table_name m) of None \<Rightarrow> False | Some p \<Rightarrow> select_user_id_eq p u \<noteq> [])"

definition first_bound :: "database \<Rightarrow> string \<Rightarrow> (int \<times> string) option" where
  "first_bound d u =
     (case find (holds_slot d u) (meetings_metadata d) of
        None \<Rightarrow> None
      | Some m \<Rightarrow>
          (case pools d (table_name m) of
             None \<Rightarrow> None
           | Some p \<Rightarrow> Some (number (hd (select_user_id_eq p u)), table_name m)))"

text \<open>An answer is missing: an empty text field, or a radio group with nothing chosen.\<close>

definition answer_missing :: "form_input \<Rightarrow> question \<Rightarrow> bool" where
  "answer_missing inp q \<longleftrightarrow>
     question_type q = ''text'' \<and> typed inp (q_id q) = [] \<or>
     question_type q = ''multiple_choice'' \<and> picked inp (q_id q) = None"

text \<open>
  A store for the examples: two meetings, listed in this order; the identity \<open>u1\<close> holds
  number 2 in the first pool and number 5 in the second, the identity \<open>u2\<close> holds
  number 2 in the second pool; one form with one text question.
\<close>

definition example_db :: database where
  "example_db = empty_db
     \<lparr>meetings_metadata :=
        [\<lparr>m_id = 1, table_name = ''meeting_1_a'', meeting_name = ''a'', created_at = ''t0'',
          max_number = 2\<rparr>,
         \<lparr>m_id = 2, table_name = ''meeting_2_b'', meeting_name = ''b'', created_at = ''t0'',
          max_number = 5\<rparr>],
      next_meeting_id := 3,
      pools :=
        [''meeting_1_a'' \<mapsto>
           [\<lparr>number = 1, assigned = False, assigned_at = None, user_id = None\<rparr>,
            \<lparr>number = 2, assigned = True, assigned_at = Some ''t1'', user_id = Some ''u1''\<rparr>],
         ''meeting_2_b'' \<mapsto>
           [\<lparr>number = 2, assigned = True, assigned_at = Some ''t2'', user_id = Some ''u2''\<rparr>,
            \<lparr>number = 5, assigned = True, assigned_at = Some ''t3'', user_id = Some ''u1''\<rparr>]],
      forms_metadata :=
        [\<lparr>f_id = 1, form_name = ''Quiz'', f_table_name = ''form_1_quiz'', f_created_at = ''t0''\<rparr>],
      next_form_id := 2,
      questions :=
        [\<lparr>q_id = 1, q_form_id = 1, question_text = ''Name'', question_type = ''text'',
          correct_answer = None\<rparr>],
      next_question_id := 2\<rparr>"

definition example_input :: "string \<Rightarrow> form_input" where
  "example_input s = \<lparr>typed = (\<lambda>q. s), picked = (\<lambda>q. None), pressed = True\<rparr>"

section \<open>Creating a form\<close>

text \<open>
  The questions gathered in \<^verbatim>\<open>st.session_state['questions']\<close>: the dictionaries with the
  keys \<^verbatim>\<open>type\<close>, \<^verbatim>\<open>text\<close>, \<^verbatim>\<open>options\<close> and \<^verbatim>\<open>correct\<close>.
\<close>

record draft_question =
  dq_type :: string
  dq_text :: string
  dq_options :: "string list"
  dq_correct :: "string option"

text \<open>
  The loops of lines 693 to 708. The question is inserted with the option text as its
  \<^verbatim>\<open>correct_answer\<close>; when the option with that text is inserted, the column is
  overwritten with \<^verbatim>\<open>str\<close> of the \<^verbatim>\<open>id\<close> the store gave to the option. None of these
  requests is inside a handler.
\<close>

fun insert_options :: "int \<Rightarrow> string option \<Rightarrow> string list \<Rightarrow> world \<Rightarrow> bool \<times> world" where
  "insert_options question_id correct [] w = (True, w)"
| "insert_options question_id correct (opt # rest) w =
     (let option_id = next_option_id (db w) in
      case execute (InsertOption question_id opt) w of
        (False, w1) \<Rightarrow> (False, w1)
      | (True, w1) \<Rightarrow>
          if Some opt = correct
          then (case execute (UpdateCorrectAnswer question_id (str_int option_id)) w1 of
                  (False, w2) \<Rightarrow> (False, w2)
                | (True, w2) \<Rightarrow> insert_options question_id correct rest w2)
          else insert_options question_id correct rest w1)"

fun insert_questions :: "int \<Rightarrow> draft_question list \<Rightarrow> world \<Rightarrow> bool \<times> world" where
  "insert_questions form_id [] w = (True, w)"
| "insert_questions form_id (q # rest) w =
     (let question_id = next_question_id (db w) in
      case execute (InsertQuestion form_id (dq_text q) (dq_type q) (dq_correct q)) w of
        (False, w1) \<Rightarrow> (False, w1)
      | (True, w1) \<Rightarrow>
          if dq_type q = ''multiple_choice'' \<and> dq_options q \<noteq> []
          then (case insert_options question_id (dq_correct q) (dq_options q) w1 of
                  (False, w2) \<Rightarrow> (False, w2)
                | (True, w2) \<Rightarrow> insert_questions form_id rest w2)
          else insert_questions form_id rest w1)"

datatype create_outcome = FormCreated | FormWarning | FormCrashed

text \<open>
  The button that creates the form (lines 686 to 723); \<open>name\<close> is the form name typed
  and \<open>tn\<close> the table name built from the clock and that name.
\<close>

definition create_form ::
  "world \<Rightarrow> string \<Rightarrow> string \<Rightarrow> string \<Rightarrow> draft_question list \<Rightarrow> create_outcome \<times> world" where
  "create_form w name tn now drafts =
     (if name \<noteq> [] \<and> drafts \<noteq> []
      then (let form_id = next_form_id (db w) in
            case execute (InsertForm name tn now) w of
              (False, w1) \<Rightarrow> (FormCrashed, w1)
            | (True, w1) \<Rightarrow>
                (case insert_questions form_id drafts w1 of
                   (False, w2) \<Rightarrow> (FormCrashed, w2)
                 | (True, w2) \<Rightarrow> (FormCreated, w2)))
      else (FormWarning, w))"

section \<open>Grading in the statistics page\<close>

text \<open>
  The two verdict strings of lines 552 and 554, as UTF-8 bytes: a check mark (U+2705) or
  a cross mark (U+274C), a space and the word.
\<close>

definition correta :: string where
  "correta = [CHR 0xE2, CHR 0x9C, CHR 0x85] @ '' Correta''"

definition incorreta :: string where
  "incorreta = [CHR 0xE2, CHR 0x9D, CHR 0x8C] @ '' Incorreta''"

text \<open>\<^verbatim>\<open>str.lower\<close>, on the letters A to Z.\<close>

definition lower_char :: "char \<Rightarrow> char" where
  "lower_char c =
     (let n = (of_char c :: nat) in if 65 \<le> n \<and> n \<le> 90 then char_of (n + 32) else c)"

definition lower :: "string \<Rightarrow> string" where
  "lower s = map lower_char s"

text \<open>A row of the table of responses shown to the organiser (lines 556 to 562).\<close>

record graded =
  Participante :: string
  Formulario :: string
  Pergunta :: string
  Resposta :: string
  Correta :: string

text \<open>
  The body of the loop over the responses (lines 542 to 562). The question is the first
  row with the response's \<^verbatim>\<open>question_id\<close> (Python raises on none); the option is
  looked up by comparing its \<^verbatim>\<open>id\<close> with the stored answer.
\<close>

definition grade_response :: "form list \<Rightarrow> response \<Rightarrow> world \<Rightarrow> graded attempt \<times> world" where
  "grade_response forms resp w =
     (let form = find (\<lambda>f. f_id f = r_form_id resp) forms in
      case execute (SelectQuestion (r_question_id resp)) w of
        (False, w1) \<Rightarrow> (Raise, w1)
      | (True, w1) \<Rightarrow>
      (case filter (\<lambda>q. q_id q = r_question_id resp) (questions (db w1)) of
        [] \<Rightarrow> (Raise, w1)
      | question # _ \<Rightarrow>
      (let row = (\<lambda>answer_display is_correct.
             \<lparr>Participante = participant_id resp,
              Formulario = (case form of Some f \<Rightarrow> form_name f | None \<Rightarrow> ''Desconhecido''),
              Pergunta = question_text question,
              Resposta = answer_display,
              Correta = (case is_correct of Some v \<Rightarrow> v | None \<Rightarrow> ''N/A'')\<rparr>);
           has_correct = (case correct_answer question of None \<Rightarrow> False | Some c \<Rightarrow> c \<noteq> [])
       in if question_type question = ''multiple_choice''
          then (case execute (SelectOption (answer resp)) w1 of
                  (False, w2) \<Rightarrow> (Raise, w2)
                | (True, w2) \<Rightarrow>
                    (let option = filter (\<lambda>opt. str_int (o_id opt) = answer resp) (options (db w2));
                         answer_display = (case option of opt # _ \<Rightarrow> option_text opt
                                           | [] \<Rightarrow> answer resp);
                         is_correct =
                           (if has_correct
                            then Some (if Some (answer resp) = correct_answer question
                                       then correta else incorreta)
                            else None)
                     in (Return (row answer_display is_correct), w2)))
          else if question_type question = ''text'' \<and> has_correct
          then (Return (row (answer resp)
                  (Some (if Some (lower (answer resp)) = map_option lower (correct_answer question)
                         then correta else incorreta))), w1)
          else (Return (row (answer resp) None), w1))))"

fun grade_all :: "form list \<Rightarrow> response list \<Rightarrow> world \<Rightarrow> graded list attempt \<times> world" where
  "grade_all forms [] w = (Return [], w)"
| "grade_all forms (resp # rest) w =
     (case grade_response forms resp w of
        (Raise, w1) \<Rightarrow> (Raise, w1)
      | (Return g, w1) \<Rightarrow>
          (case grade_all forms rest w1 of
             (Raise, w2) \<Rightarrow> (Raise, w2)
           | (Return gs, w2) \<Rightarrow> (Return (g # gs), w2)))"

text \<open>
  The responses part of the statistics page for the selected meeting (lines 479, 480 and
  535 to 578); the number statistics in between have a handler of their own and are left
  out. The result is the table shown, empty when the page shows a notice instead.
\<close>

definition statistics_responses :: "world \<Rightarrow> string \<Rightarrow> graded list attempt \<times> world" where
  "statistics_responses w selected_table =
     (case execute (SelectMeetingByTable selected_table) w of
        (False, w1) \<Rightarrow> (Raise, w1)
      | (True, w1) \<Rightarrow>
      (case filter (\<lambda>m. table_name m = selected_table) (meetings_metadata (db w1)) of
        [] \<Rightarrow> (Raise, w1)
      | meeting_info # _ \<Rightarrow>
      (case get_forms_for_meeting w1 (m_id meeting_info) of (forms, w2) \<Rightarrow>
       if forms \<noteq> []
       then (let form_ids = map f_id forms in
             case execute (SelectResponsesIn form_ids) w2 of
               (False, w3) \<Rightarrow> (Raise, w3)
             | (True, w3) \<Rightarrow>
                 (let rs = filter (\<lambda>r. r_form_id r \<in> set form_ids) (responses (db w3))
                  in if rs \<noteq> [] then grade_all forms rs w3 else (Return [], w3)))
       else (Return [], w2))))"

section \<open>The grading scenario\<close>

text \<open>
  On an empty store: the organiser creates a form with a text question without correct
  answer and a multiple-choice question with the options Red and Blue, Red being correct;
  then a meeting of three numbers offering this form; a participant gets number 2, types
  hello and chooses Red.
\<close>

definition scenario_form :: "create_outcome \<times> world" where
  "scenario_form =
     create_form (world_of empty_db []) ''Quiz'' ''form_1_quiz'' ''t0''
       [\<lparr>dq_type = ''text'', dq_text = ''Your name'', dq_options = [], dq_correct = None\<rparr>,
        \<lparr>dq_type = ''multiple_choice'', dq_text = ''Colour'', dq_options = [''Red'', ''Blue''],
         dq_correct = Some ''Red''\<rparr>]"

definition scenario_meeting :: "bool \<times> world" where
  "scenario_meeting =
     create_meeting_table (snd scenario_form) ''meeting_1_m'' ''m'' 3 (Some [1]) ''t1''"

definition scenario_number :: "(alloc_error + int) option \<times> world" where
  "scenario_number = allocation_block (snd scenario_meeting) ''meeting_1_m'' ''u1'' 1 ''t2''"

definition scenario_submit :: "form_outcome \<times> world" where
  "scenario_submit =
     participant_form (snd scenario_number) ''form_1_quiz'' ''u1''
       \<lparr>typed = (\<lambda>q. ''hello''), picked = (\<lambda>q. Some ''Red''), pressed = True\<rparr>"

definition scenario_statistics :: "graded list attempt \<times> world" where
  "scenario_statistics = statistics_responses (snd scenario_submit) ''meeting_1_m''"

text \<open>The same participant choosing Blue instead.\<close>

definition scenario_submit_blue :: "form_outcome \<times> world" where
  "scenario_submit_blue =
     participant_form (snd scenario_number) ''form_1_quiz'' ''u1''
       \<lparr>typed = (\<lambda>q. ''hello''), picked = (\<lambda>q. Some ''Blue''), pressed = True\<rparr>"

definition scenario_statistics_blue :: "graded list attempt \<times> world" where
  "scenario_statistics_blue = statistics_responses (snd scenario_submit_blue) ''meeting_1_m''"

section \<open>What one request does\<close>

lemma execute_obs:
  assumes "execute rq w = (ok, w')"
  shows "trace w' = trace w @ [(rq, ok)]" "shown w' = shown w" "faults w' = tl (faults w)"
  using assms
  by (simp_all add: execute_def Let_def split: if_splits option.splits) auto

lemma execute_db:
  assumes "execute rq w = (ok, w')"
  shows "db w' = (if ok then the (effect rq (db w)) else db w)" "ok \<Longrightarrow> effect rq (db w) \<noteq> None"
  using assms
  by (cases ok; auto simp: execute_def Let_def split: if_splits option.splits)+

lemma new_trace_eq: "trace w' = trace w @ t \<Longrightarrow> new_trace w w' = t"
  by (simp add: new_trace_def)

lemma new_shown_eq: "shown w' = shown w @ ms \<Longrightarrow> new_shown w w' = ms"
  by (simp add: new_shown_def)

lemma st_error_obs [simp]:
  "trace (st_error m w) = trace w" "shown (st_error m w) = shown w @ [m]"
  "db (st_error m w) = db w" "faults (st_error m w) = faults w"
  by (simp_all add: st_error_def)

section \<open>Idempotence of the allocation\<close>



section \<open>The allocation block: case analysis, invariant and ownership\<close>

lemma random_choice_mem: "xs \<noteq> [] \<Longrightarrow> random_choice r xs \<in> set xs"
  by (simp add: random_choice_def)

lemma select_user_id_eq_Nil: "select_user_id_eq p u = [] \<longleftrightarrow> (\<forall>s\<in>set p. user_id s \<noteq> Some u)"
  by (auto simp: select_user_id_eq_def filter_empty_conv)

lemma assign_or_get_cases:
  assumes "assign_or_get p u r now = (out, p')"
  obtains
    (existing) s where "s \<in> set p" "user_id s = Some u" "out = Inr (number s)" "p' = p"
  | (exhausted) "select_user_id_eq p u = []" "select_assigned_false p = []"
      "out = Inl PoolExhausted" "p' = p"
  | (fresh) f where "select_user_id_eq p u = []" "f \<in> set p" "\<not> assigned f"
      "out = Inr (number f)" "p' = update_number_eq p (number f) now u"
proof (cases "select_user_id_eq p u")
  case (Cons s ss)
  then have "s \<in> set (select_user_id_eq p u)" by simp
  then have "s \<in> set p" "user_id s = Some u" by (auto simp: select_user_id_eq_def)
  moreover from assms Cons have "out = Inr (number s)" "p' = p"
    by (auto simp: assign_or_get_def)
  ultimately show ?thesis by (rule existing)
next
  case Nil
  show ?thesis
  proof (cases "select_assigned_false p")
    case Nil': Nil
    with assms Nil show ?thesis by (intro exhausted) (auto simp: assign_or_get_def)
  next
    case (Cons f fs)
    define n where "n = random_choice r (map number (f # fs))"
    have "n \<in> set (map number (f # fs))" unfolding n_def by (rule random_choice_mem) simp
    then obtain g where g: "g \<in> set (select_assigned_false p)" "number g = n"
      using Cons by auto
    then have "g \<in> set p" "\<not> assigned g" by (auto simp: select_assigned_false_def)
    moreover from assms Nil Cons have "out = Inr (number g)" "p' = update_number_eq p (number g) now u"
      by (auto simp: assign_or_get_def Let_def n_def g(2))
    ultimately show ?thesis using Nil by (intro fresh[of g]) auto
  qed
qed

lemma number_update [simp]: "map number (update_number_eq p n now u) = map number p"
  by (induction p) (simp_all add: update_number_eq_def)

lemma in_update_iff:
  "s' \<in> set (update_number_eq p n now u) \<longleftrightarrow>
   (\<exists>s\<in>set p. s' = (if number s = n
        then s\<lparr>assigned := True, assigned_at := Some now, user_id := Some u\<rparr> else s))"
  unfolding update_number_eq_def set_map by blast

lemma distinct_number_eq:
  assumes "distinct (map number p)" "s \<in> set p" "t \<in> set p" "number s = number t"
  shows "s = t"
proof -
  from assms(1) have "inj_on number (set p)" by (simp add: distinct_map)
  then show ?thesis using assms(2-4) by (simp add: inj_on_def)
qed

lemma pool_ok_update:
  assumes ok: "pool_ok p" and none: "select_user_id_eq p u = []"
  shows "pool_ok (update_number_eq p n now u)"
proof -
  let ?g = "\<lambda>s. if number s = n
        then s\<lparr>assigned := True, assigned_at := Some now, user_id := Some u\<rparr> else s"
  let ?p' = "update_number_eq p n now u"
  have unbound: "user_id s \<noteq> Some u" if "s \<in> set p" for s
    using none that by (simp add: select_user_id_eq_Nil)
  have a: "distinct (map number ?p')" using ok by (simp add: pool_ok_def)
  have b: "assigned s'" if "s' \<in> set ?p'" "user_id s' \<noteq> None" for s'
  proof -
    from that(1) obtain s where s: "s \<in> set p" "s' = ?g s" unfolding in_update_iff by blast
    show ?thesis
    proof (cases "number s = n")
      case True with s show ?thesis by simp
    next
      case False
      with s that(2) have "user_id s \<noteq> None" by simp
      with ok s(1) have "assigned s" by (simp add: pool_ok_def)
      with False s show ?thesis by simp
    qed
  qed
  have c: "number s' = number t'"
    if "s' \<in> set ?p'" "t' \<in> set ?p'" "user_id s' \<noteq> None" "user_id s' = user_id t'" for s' t'
  proof -
    from that(1) obtain s where s: "s \<in> set p" "s' = ?g s" unfolding in_update_iff by blast
    from that(2) obtain t where t: "t \<in> set p" "t' = ?g t" unfolding in_update_iff by blast
    consider "number s = n" "number t = n" | "number s = n" "number t \<noteq> n"
      | "number s \<noteq> n" "number t = n" | "number s \<noteq> n" "number t \<noteq> n" by blast
    then show ?thesis
    proof cases
      case 1 with s t show ?thesis by simp
    next
      case 2
      with s t that(4) have "user_id t = Some u" by simp
      with unbound[OF t(1)] show ?thesis by simp
    next
      case 3
      with s t that(4) have "user_id s = Some u" by simp
      with unbound[OF s(1)] show ?thesis by simp
    next
      case 4
      with s t that have "user_id s \<noteq> None" "user_id s = user_id t" by simp_all
      with ok s(1) t(1) have "number s = number t" unfolding pool_ok_def by blast
      with 4 s t show ?thesis by simp
    qed
  qed
  from a b c show ?thesis unfolding pool_ok_def by blast
qed

lemma pool_ok_created: "pool_ok (map unassigned_row [1..mx])"
proof -
  have "map number (map unassigned_row [1..mx]) = [1..mx]"
    by (simp add: unassigned_row_def comp_def)
  then have d: "distinct (map number (map unassigned_row [1..mx]))" by simp
  have n: "\<forall>s\<in>set (map unassigned_row [1..mx]). user_id s = None"
    by (simp add: unassigned_row_def)
  from d n show ?thesis unfolding pool_ok_def by simp
qed

lemma pool_ok_assign:
  assumes "pool_ok p" "assign_or_get p u r now = (out, p')"
  shows "pool_ok p'"
  using assms(2)
proof (cases rule: assign_or_get_cases)
  case (fresh f)
  with assms(1) show ?thesis by (simp add: pool_ok_update)
qed (simp_all add: assms(1))

lemma owns_after:
  assumes "assign_or_get p u r now = (Inr n, p')"
  shows "owns p' u n"
  using assms
proof (cases rule: assign_or_get_cases)
  case (existing s)
  then show ?thesis unfolding owns_def by auto
next
  case (fresh f)
  let ?f' = "f\<lparr>assigned := True, assigned_at := Some now, user_id := Some u\<rparr>"
  have "?f' \<in> set (update_number_eq p (number f) now u)"
    unfolding in_update_iff using fresh(2) by (intro bexI[of _ f]) simp_all
  then have "?f' \<in> set p'" using fresh(5) by simp
  moreover have "number ?f' = n" "user_id ?f' = Some u" using fresh(4) by simp_all
  ultimately show ?thesis unfolding owns_def by blast
qed simp

lemma owns_kept:
  assumes ok: "pool_ok p" and step: "assign_or_get p v r now = (out, p')" and own: "owns p u n"
  shows "owns p' u n"
  using step
proof (cases rule: assign_or_get_cases)
  case (fresh f)
  from own obtain s where s: "s \<in> set p" "number s = n" "user_id s = Some u"
    unfolding owns_def by blast
  with ok have "assigned s" unfolding pool_ok_def by blast
  with fresh(3) have "s \<noteq> f" by blast
  moreover from ok have "distinct (map number p)" by (simp add: pool_ok_def)
  ultimately have "number s \<noteq> number f"
    using distinct_number_eq[of p s f] s(1) fresh(2) by blast
  then have "s \<in> set (update_number_eq p (number f) now v)"
    unfolding in_update_iff using s(1) by (intro bexI[of _ s]) simp_all
  then have "s \<in> set p'" using fresh(5) by simp
  with s show ?thesis unfolding owns_def by blast
qed (simp_all add: own)

lemma owns_unique:
  assumes "pool_ok p" "owns p u n" "owns p v n"
  shows "u = v"
proof -
  from assms(2) obtain s where s: "s \<in> set p" "number s = n" "user_id s = Some u"
    unfolding owns_def by blast
  from assms(3) obtain t where t: "t \<in> set p" "number t = n" "user_id t = Some v"
    unfolding owns_def by blast
  from assms(1) have "distinct (map number p)" by (simp add: pool_ok_def)
  then have "s = t" using s(1) t(1) s(2) t(2) by (intro distinct_number_eq[of p]) simp_all
  with s t show ?thesis by simp
qed

lemma alloc_run_owns:
  assumes "pool_ok p" "alloc_run p reqs = (outs, p')"
  shows "pool_ok p' \<and> (\<forall>u n. owns p u n \<longrightarrow> owns p' u n) \<and>
         (\<forall>u n. (u, Inr n) \<in> set outs \<longrightarrow> owns p' u n)"
  using assms
proof (induction reqs arbitrary: p outs p')
  case Nil
  then show ?case by simp
next
  case (Cons q reqs)
  obtain u r now where q: "q = (u, r, now)" by (cases q)
  obtain out p1 where s1: "assign_or_get p u r now = (out, p1)" by (cases "assign_or_get p u r now")
  obtain outs' p2 where s2: "alloc_run p1 reqs = (outs', p2)" by (cases "alloc_run p1 reqs")
  from Cons.prems(2) q s1 s2 have eq: "outs = (u, out) # outs'" "p' = p2" by simp_all
  have ok1: "pool_ok p1" using Cons.prems(1) s1 by (rule pool_ok_assign)
  from Cons.IH[OF ok1 s2] have ih: "pool_ok p2" "\<And>u n. owns p1 u n \<Longrightarrow> owns p2 u n"
    "\<And>u n. (u, Inr n) \<in> set outs' \<Longrightarrow> owns p2 u n" by blast+
  have keep: "owns p2 v n" if "owns p v n" for v n
    using owns_kept[OF Cons.prems(1) s1 that] by (rule ih(2))
  have first: "owns p2 u n" if "out = Inr n" for n
    using owns_after[of p u r now n p1] s1 that ih(2) by simp
  have "owns p2 v n" if "(v, Inr n) \<in> set outs" for v n
    using that first ih(3) unfolding eq by auto
  with ih(1) keep show ?case unfolding eq by blast
qed

lemma update_noop: "n \<notin> number ` set p \<Longrightarrow> update_number_eq p n now u = p"
  by (induction p) (simp_all add: update_number_eq_def)

lemma unassigned_count_update:
  assumes "distinct (map number p)" "f \<in> set p" "\<not> assigned f"
  shows "Suc (length (select_assigned_false (update_number_eq p (number f) now u)))
         = length (select_assigned_false p)"
  using assms
proof (induction p)
  case Nil
  then show ?case by simp
next
  case (Cons a p)
  from Cons.prems(1) have fresh: "number a \<notin> number ` set p" and d: "distinct (map number p)"
    by simp_all
  show ?case
  proof (cases "f = a")
    case True
    have "update_number_eq (a # p) (number a) now u =
          a\<lparr>assigned := True, assigned_at := Some now, user_id := Some u\<rparr> # p"
      using update_noop[OF fresh, of now u] by (simp add: update_number_eq_def)
    with True Cons.prems(3) show ?thesis by (simp add: select_assigned_false_def)
  next
    case False
    with Cons.prems(2) have fp: "f \<in> set p" by simp
    with fresh have ne: "number a \<noteq> number f" by force
    have "update_number_eq (a # p) (number f) now u = a # update_number_eq p (number f) now u"
      using ne by (simp add: update_number_eq_def)
    with Cons.IH[OF d fp Cons.prems(3)] show ?thesis
      by (simp add: select_assigned_false_def)
  qed
qed

lemma unbound_update:
  assumes "w \<noteq> u" "select_user_id_eq p w = []"
  shows "select_user_id_eq (update_number_eq p n now u) w = []"
  unfolding select_user_id_eq_Nil
proof
  fix s' assume "s' \<in> set (update_number_eq p n now u)"
  then obtain s where s: "s \<in> set p" "s' = (if number s = n
        then s\<lparr>assigned := True, assigned_at := Some now, user_id := Some u\<rparr> else s)"
    unfolding in_update_iff by blast
  from assms(2) s(1) have "user_id s \<noteq> Some w" by (simp add: select_user_id_eq_Nil)
  with s(2) assms(1) show "user_id s' \<noteq> Some w" by (cases "number s = n") simp_all
qed

lemma alloc_run_fresh:
  assumes "pool_ok p" "distinct (map fst reqs)"
    "\<forall>q\<in>set reqs. select_user_id_eq p (fst q) = []"
    "length reqs \<le> length (select_assigned_false p)"
    "alloc_run p reqs = (outs, p')"
  shows "(\<forall>x\<in>set outs. \<exists>n. snd x = Inr n) \<and>
         length (select_assigned_false p') + length reqs = length (select_assigned_false p) \<and>
         (\<forall>w. w \<notin> fst ` set reqs \<longrightarrow> select_user_id_eq p w = [] \<longrightarrow> select_user_id_eq p' w = [])"
  using assms
proof (induction reqs arbitrary: p outs p')
  case Nil
  then show ?case by simp
next
  case (Cons q reqs)
  obtain u r now where q: "q = (u, r, now)" by (cases q)
  obtain out p1 where s1: "assign_or_get p u r now = (out, p1)" by (cases "assign_or_get p u r now")
  obtain outs' p2 where s2: "alloc_run p1 reqs = (outs', p2)" by (cases "alloc_run p1 reqs")
  from Cons.prems(5) q s1 s2 have eq: "outs = (u, out) # outs'" "p' = p2" by simp_all
  have ok1: "pool_ok p1" using Cons.prems(1) s1 by (rule pool_ok_assign)
  from Cons.prems(3) q have nou: "select_user_id_eq p u = []" by simp
  from Cons.prems(4) have some: "select_assigned_false p \<noteq> []" by auto
  from Cons.prems(1) have d: "distinct (map number p)" by (simp add: pool_ok_def)
  from s1 obtain f where f: "f \<in> set p" "\<not> assigned f" "out = Inr (number f)"
      "p1 = update_number_eq p (number f) now u"
  proof (cases rule: assign_or_get_cases)
    case (existing s)
    with nou show ?thesis by (simp add: select_user_id_eq_Nil)
  next
    case exhausted
    with some show ?thesis by simp
  next
    case (fresh f)
    with that show ?thesis by blast
  qed
  have cnt: "Suc (length (select_assigned_false p1)) = length (select_assigned_false p)"
    unfolding f(4) using d f(1,2) by (rule unassigned_count_update)
  have rest_unbound: "\<forall>q\<in>set reqs. select_user_id_eq p1 (fst q) = []"
  proof
    fix q' assume q': "q' \<in> set reqs"
    with Cons.prems(2) q have "fst q' \<noteq> u" by force
    moreover from Cons.prems(3) q' have "select_user_id_eq p (fst q') = []" by simp
    ultimately show "select_user_id_eq p1 (fst q') = []" unfolding f(4) by (rule unbound_update)
  qed
  from Cons.prems(2) have dr: "distinct (map fst reqs)" by simp
  from Cons.prems(4) cnt have le: "length reqs \<le> length (select_assigned_false p1)" by simp
  from Cons.IH[OF ok1 dr rest_unbound le s2]
  have ih: "\<forall>x\<in>set outs'. \<exists>n. snd x = Inr n"
    "length (select_assigned_false p2) + length reqs = length (select_assigned_false p1)"
    "\<And>w. w \<notin> fst ` set reqs \<Longrightarrow> select_user_id_eq p1 w = [] \<Longrightarrow> select_user_id_eq p2 w = []"
    by blast+
  have a: "\<forall>x\<in>set outs. \<exists>n. snd x = Inr n" unfolding eq using ih(1) f(3) by simp
  have b: "length (select_assigned_false p') + length (q # reqs) = length (select_assigned_false p)"
    unfolding eq using ih(2) cnt by simp
  have c: "select_user_id_eq p' w = []"
    if "w \<notin> fst ` set (q # reqs)" "select_user_id_eq p w = []" for w
  proof -
    from that(1) q have "w \<noteq> u" "w \<notin> fst ` set reqs" by auto
    from unbound_update[OF this(1) that(2)] have "select_user_id_eq p1 w = []" unfolding f(4) .
    with ih(3)[OF \<open>w \<notin> fst ` set reqs\<close>] show ?thesis unfolding eq by simp
  qed
  from a b c show ?case by blast
qed

section \<open>Uniqueness of sequential allocations\<close>

text \<open>
  Claim C2. The pools the program can produce are closed under the program: a pool as
  \<^verbatim>\<open>create_meeting_table\<close> fills it satisfies \<open>pool_ok\<close>, and the allocation block
  keeps \<open>pool_ok\<close>. Starting from such a pool, after any sequence of allocations run one
  after the other, two loads that were given the same number were loads of the same
  identity (so distinct identities whose allocations succeed hold distinct numbers), and
  the pool is again such a pool: in particular at most one slot is bound to a given
  identity.
\<close>

theorem C2_sequential_uniqueness:
  "pool_ok (map unassigned_row [1..mx]) \<and>
   (pool_ok p \<and> alloc_run p reqs = (outs, p')
      \<longrightarrow> (\<forall>u v n. (u, Inr n) \<in> set outs \<and> (v, Inr n) \<in> set outs \<longrightarrow> u = v) \<and> pool_ok p')"
proof (rule conjI)
  show "pool_ok (map unassigned_row [1..mx])" by (rule pool_ok_created)
next
  show "pool_ok p \<and> alloc_run p reqs = (outs, p')
      \<longrightarrow> (\<forall>u v n. (u, Inr n) \<in> set outs \<and> (v, Inr n) \<in> set outs \<longrightarrow> u = v) \<and> pool_ok p'"
  proof
    assume h: "pool_ok p \<and> alloc_run p reqs = (outs, p')"
    then have "pool_ok p" "alloc_run p reqs = (outs, p')" by simp_all
    from alloc_run_owns[OF this]
    have ok: "pool_ok p'" and own: "\<And>u n. (u, Inr n) \<in> set outs \<Longrightarrow> owns p' u n"
      by blast+
    have "u = v" if "(u, Inr n) \<in> set outs" "(v, Inr n) \<in> set outs" for u v n
      using ok own[OF that(1)] own[OF that(2)] by (rule owns_unique)
    with ok show "(\<forall>u v n. (u, Inr n) \<in> set outs \<and> (v, Inr n) \<in> set outs \<longrightarrow> u = v) \<and> pool_ok p'"
      by blast
  qed
qed

theorem C2_sequential_uniqueness_witness:
  "pool_ok (map unassigned_row [1..3])
   \<and> alloc_run (map unassigned_row [1..3])
     [(''A'', 1, ''t1''), (''A'', 0, ''t2''), (''B'', 1, ''t3'')]
     = ([(''A'', Inr 2), (''A'', Inr 2), (''B'', Inr 3)],
     [\<lparr>number = 1, assigned = False, assigned_at = None, user_id = None\<rparr>,
      \<lparr>number = 2, assigned = True, assigned_at = Some ''t1'', user_id = Some ''A''\<rparr>,
      \<lparr>number = 3, assigned = True, assigned_at = Some ''t3'', user_id = Some ''B''\<rparr>])
   \<and> pool_ok
     [\<lparr>number = 1, assigned = False, assigned_at = None, user_id = None\<rparr>,
      \<lparr>number = 2, assigned = True, assigned_at = Some ''t1'', user_id = Some ''A''\<rparr>,
      \<lparr>number = 3, assigned = True, assigned_at = Some ''t3'', user_id = Some ''B''\<rparr>]"
proof -
  let ?p = "map unassigned_row [1..3]"
  let ?reqs = "[(''A'', 1::nat, ''t1''), (''A'', 0, ''t2''), (''B'', 1, ''t3'')]"
  let ?outs = "[(''A'', Inr 2), (''A'', Inr 2), (''B'', Inr 3)] :: (string \<times> (alloc_error + int)) list"
  let ?p' = "[\<lparr>number = 1, assigned = False, assigned_at = None, user_id = None\<rparr>,
      \<lparr>number = 2, assigned = True, assigned_at = Some ''t1'', user_id = Some ''A''\<rparr>,
      \<lparr>number = 3, assigned = True, assigned_at = Some ''t3'', user_id = Some ''B''\<rparr>]"
  have h2: "alloc_run ?p ?reqs = (?outs, ?p')"
    by (simp add: assign_or_get_def select_user_id_eq_def select_assigned_false_def
        update_number_eq_def random_choice_def Let_def unassigned_row_def upto_rec1)
  from C2_sequential_uniqueness [of 3 ?p ?reqs ?outs ?p'] h2
  have "pool_ok ?p" "pool_ok ?p'" by blast+
  with h2 show ?thesis by blast
qed

section \<open>Exhaustion of the pool\<close>

text \<open>
  Claim C3. On a pool with no slot left unassigned, an identity that owns no slot is
  told that the pool is exhausted: no number comes back and the pool table is not
  written. And on a pool the program can produce, with all its slots unassigned, as many
  loads by pairwise distinct identities as the pool has slots all succeed, after which a
  further new identity gets the exhaustion branch.
\<close>

theorem C3_pool_exhaustion:
  "(select_user_id_eq p u = [] \<and> select_assigned_false p = []
      \<longrightarrow> assign_or_get p u r now = (Inl PoolExhausted, p)) \<and>
   (pool_ok p0 \<and> select_assigned_false p0 = p0 \<and> distinct (map fst reqs) \<and>
    length reqs = length p0 \<and> alloc_run p0 reqs = (outs, p1) \<and> v \<notin> fst ` set reqs
      \<longrightarrow> (\<forall>x\<in>set outs. \<exists>n. snd x = Inr n) \<and>
          assign_or_get p1 v r' now' = (Inl PoolExhausted, p1))"
proof (rule conjI; rule impI)
  assume "select_user_id_eq p u = [] \<and> select_assigned_false p = []"
  then show "assign_or_get p u r now = (Inl PoolExhausted, p)"
    by (simp add: assign_or_get_def)
next
  assume h: "pool_ok p0 \<and> select_assigned_false p0 = p0 \<and> distinct (map fst reqs) \<and>
    length reqs = length p0 \<and> alloc_run p0 reqs = (outs, p1) \<and> v \<notin> fst ` set reqs"
  then have ok: "pool_ok p0" and all_free: "select_assigned_false p0 = p0"
    and d: "distinct (map fst reqs)" and len: "length reqs = length p0"
    and run: "alloc_run p0 reqs = (outs, p1)" and new: "v \<notin> fst ` set reqs"
    by blast+
  have free: "\<not> assigned s" if "s \<in> set p0" for s
  proof -
    from that all_free have "s \<in> set (select_assigned_false p0)" by simp
    then show ?thesis by (simp add: select_assigned_false_def)
  qed
  have unbound: "select_user_id_eq p0 w = []" for w
    unfolding select_user_id_eq_Nil
  proof
    fix s assume s: "s \<in> set p0"
    show "user_id s \<noteq> Some w"
    proof
      assume "user_id s = Some w"
      with ok s have "assigned s" unfolding pool_ok_def by blast
      with free[OF s] show False by simp
    qed
  qed
  have le: "length reqs \<le> length (select_assigned_false p0)" using len all_free by simp
  from alloc_run_fresh[OF ok d _ le run] unbound
  have succ: "\<forall>x\<in>set outs. \<exists>n. snd x = Inr n"
    and cnt: "length (select_assigned_false p1) + length reqs = length (select_assigned_false p0)"
    and keep: "\<And>w. w \<notin> fst ` set reqs \<Longrightarrow> select_user_id_eq p1 w = []"
    by blast+
  from cnt len all_free have "select_assigned_false p1 = []" by simp
  with keep[OF new] have "assign_or_get p1 v r' now' = (Inl PoolExhausted, p1)"
    by (simp add: assign_or_get_def)
  with succ show "(\<forall>x\<in>set outs. \<exists>n. snd x = Inr n) \<and>
          assign_or_get p1 v r' now' = (Inl PoolExhausted, p1)" by blast
qed

theorem C3_pool_exhaustion_witness:
  "pool_ok
     [\<lparr>number = 1, assigned = False, assigned_at = None, user_id = None\<rparr>,
      \<lparr>number = 2, assigned = False, assigned_at = None, user_id = None\<rparr>]
   \<and> alloc_run
     [\<lparr>number = 1, assigned = False, assigned_at = None, user_id = None\<rparr>,
      \<lparr>number = 2, assigned = False, assigned_at = None, user_id = None\<rparr>]
     [(''A'', 1, ''t1''), (''B'', 5, ''t2'')]
     = ([(''A'', Inr 2), (''B'', Inr 1)],
     [\<lparr>number = 1, assigned = True, assigned_at = Some ''t2'', user_id = Some ''B''\<rparr>,
      \<lparr>number = 2, assigned = True, assigned_at = Some ''t1'', user_id = Some ''A''\<rparr>])
   \<and> assign_or_get
     [\<lparr>number = 1, assigned = True, assigned_at = Some ''t2'', user_id = Some ''B''\<rparr>,
      \<lparr>number = 2, assigned = True, assigned_at = Some ''t1'', user_id = Some ''A''\<rparr>]
     ''C'' 7 ''t3''
     = (Inl PoolExhausted,
     [\<lparr>number = 1, assigned = True, assigned_at = Some ''t2'', user_id = Some ''B''\<rparr>,
      \<lparr>number = 2, assigned = True, assigned_at = Some ''t1'', user_id = Some ''A''\<rparr>])"
proof -
  let ?p0 = "[\<lparr>number = 1, assigned = False, assigned_at = None, user_id = None\<rparr>,
      \<lparr>number = 2, assigned = False, assigned_at = None, user_id = None\<rparr>]"
  let ?p1 = "[\<lparr>number = 1, assigned = True, assigned_at = Some ''t2'', user_id = Some ''B''\<rparr>,
      \<lparr>number = 2, assigned = True, assigned_at = Some ''t1'', user_id = Some ''A''\<rparr>]"
  let ?reqs = "[(''A'', 1::nat, ''t1''), (''B'', 5, ''t2'')]"
  let ?outs = "[(''A'', Inr 2), (''B'', Inr 1)] :: (string \<times> (alloc_error + int)) list"
  have h1: "pool_ok ?p0" by (simp add: pool_ok_def)
  have h2: "select_assigned_false ?p0 = ?p0" by (simp add: select_assigned_false_def)
  have h3: "distinct (map fst ?reqs)" by simp
  have h4: "length ?reqs = length ?p0" by simp
  have h5: "alloc_run ?p0 ?reqs = (?outs, ?p1)"
    by (simp add: assign_or_get_def select_user_id_eq_def select_assigned_false_def
        update_number_eq_def random_choice_def Let_def)
  have h6: "''C'' \<notin> fst ` set ?reqs" by simp
  from C3_pool_exhaustion [of "[]" "''C''" 0 "''t''" ?p0 ?reqs ?outs ?p1 "''C''" 7 "''t3''"]
    h1 h2 h3 h4 h5 h6
  have "assign_or_get ?p1 ''C'' 7 ''t3'' = (Inl PoolExhausted, ?p1)" by blast
  with h1 h5 show ?thesis by blast
qed

section \<open>Requests, traces and the creation of a pool: lemmas\<close>

lemma all_answered_simps [simp]:
  "all_answered []" "all_answered ((rq, b) # t) \<longleftrightarrow> b \<and> all_answered t"
  "all_answered (t @ t') \<longleftrightarrow> all_answered t \<and> all_answered t'"
  by (simp_all add: all_answered_def)

lemma stopped_single [simp]: "stopped_at_failure [(rq, False)]"
  by (simp add: stopped_at_failure_def)

lemma stopped_append:
  "all_answered t \<Longrightarrow> stopped_at_failure t' \<Longrightarrow> stopped_at_failure (t @ t')"
  by (auto simp: stopped_at_failure_def all_answered_def butlast_append)

lemma links_inserted_append: "links_inserted (t @ t') = links_inserted t @ links_inserted t'"
  by (induction t rule: links_inserted.induct) simp_all


lemma insert_batches_summary:
  assumes "insert_batches tn bss w = (ok, w')"
  shows "\<exists>t. trace w' = trace w @ t \<and> shown w' = shown w \<and>
             (if ok then all_answered t else stopped_at_failure t) \<and>
             links_inserted t = [] \<and> meeting_forms (db w') = meeting_forms (db w)"
  using assms
proof (induction bss arbitrary: w)
  case Nil
  then show ?case by simp
next
  case (Cons data rest)
  obtain a w1 where e: "execute (InsertSlots tn data) w = (a, w1)"
    by (cases "execute (InsertSlots tn data) w")
  note o = execute_obs[OF e] and d = execute_db[OF e]
  show ?case
  proof (cases a)
    case False
    with Cons.prems e have "ok = False" "w' = w1" by simp_all
    moreover from d(1) False have "meeting_forms (db w1) = meeting_forms (db w)" by simp
    ultimately show ?thesis using o False
      by (intro exI[of _ "[(InsertSlots tn data, False)]"]) simp
  next
    case True
    with Cons.prems e have r: "insert_batches tn rest w1 = (ok, w')" by simp
    from Cons.IH[OF r] obtain t where t: "trace w' = trace w1 @ t" "shown w' = shown w1"
      "if ok then all_answered t else stopped_at_failure t" "links_inserted t = []"
      "meeting_forms (db w') = meeting_forms (db w1)" by blast
    from d True have mf: "meeting_forms (db w1) = meeting_forms (db w)"
      by (cases "pools (db w) tn") simp_all
    let ?t = "(InsertSlots tn data, True) # t"
    have "trace w' = trace w @ ?t" using t(1) o(1) True by simp
    moreover have "if ok then all_answered ?t else stopped_at_failure ?t"
      using t(3) stopped_append[of "[(InsertSlots tn data, True)]" t] by (cases ok) simp_all
    moreover have "links_inserted ?t = []" using t(4) by simp
    ultimately show ?thesis using t(2,5) o(2) mf by (intro exI[of _ ?t]) simp
  qed
qed

lemma insert_batches_pool:
  assumes "insert_batches tn bss w = (True, w')" "pools (db w) tn = Some p"
  shows "pools (db w') tn = Some (p @ concat bss)"
  using assms
proof (induction bss arbitrary: w p)
  case Nil
  then show ?case by simp
next
  case (Cons data rest)
  obtain a w1 where e: "execute (InsertSlots tn data) w = (a, w1)"
    by (cases "execute (InsertSlots tn data) w")
  with Cons.prems(1) have a: "a" and r: "insert_batches tn rest w1 = (True, w')"
    by (cases a; simp)+
  from execute_db(1)[OF e] a Cons.prems(2) have "pools (db w1) tn = Some (p @ data)"
    by simp
  from Cons.IH[OF r this] show ?case by simp
qed

lemma insert_links_summary:
  assumes "insert_links m fs w = (ok, w')"
  shows "\<exists>t k. trace w' = trace w @ t \<and> shown w' = shown w \<and>
             (if ok then all_answered t else stopped_at_failure t) \<and>
             links_inserted t = map (Pair m) (take k fs) \<and>
             meeting_forms (db w') = meeting_forms (db w) @ map (Pair m) (take k fs) \<and>
             pools (db w') = pools (db w) \<and>
             meetings_metadata (db w') = meetings_metadata (db w)"
  using assms
proof (induction fs arbitrary: w)
  case Nil
  then show ?case by simp
next
  case (Cons f rest)
  obtain a w1 where e: "execute (InsertLink m f) w = (a, w1)"
    by (cases "execute (InsertLink m f) w")
  note o = execute_obs[OF e] and d = execute_db[OF e]
  show ?case
  proof (cases a)
    case False
    with Cons.prems e have "ok = False" "w' = w1" by simp_all
    moreover from d(1) False have "db w1 = db w" by simp
    ultimately show ?thesis using o False
      by (intro exI[of _ "[(InsertLink m f, False)]"] exI[of _ 0]) simp
  next
    case True
    with Cons.prems e have r: "insert_links m rest w1 = (ok, w')" by simp
    from Cons.IH[OF r] obtain t k where t: "trace w' = trace w1 @ t" "shown w' = shown w1"
      "if ok then all_answered t else stopped_at_failure t"
      "links_inserted t = map (Pair m) (take k rest)"
      "meeting_forms (db w') = meeting_forms (db w1) @ map (Pair m) (take k rest)"
      "pools (db w') = pools (db w1)"
      "meetings_metadata (db w') = meetings_metadata (db w1)" by blast
    from d(1) True have d1: "db w1 = (db w)\<lparr>meeting_forms := meeting_forms (db w) @ [(m, f)]\<rparr>"
      by simp
    let ?t = "(InsertLink m f, True) # t"
    have "trace w' = trace w @ ?t" using t(1) o(1) True by simp
    moreover have "if ok then all_answered ?t else stopped_at_failure ?t"
      using t(3) stopped_append[of "[(InsertLink m f, True)]" t] by (cases ok) simp_all
    moreover have "links_inserted ?t = map (Pair m) (take (Suc k) (f # rest))" using t(4) by simp
    moreover have "meeting_forms (db w') = meeting_forms (db w) @ map (Pair m) (take (Suc k) (f # rest))"
      using t(5) d1 by simp
    moreover have "pools (db w') = pools (db w)" "meetings_metadata (db w') = meetings_metadata (db w)"
      using t(6,7) d1 by simp_all
    ultimately show ?thesis using t(2) o(2) by (intro exI[of _ ?t] exI[of _ "Suc k"]) simp
  qed
qed

lemma effect_links:
  "effect rq d = Some d' \<Longrightarrow> meeting_forms d' = meeting_forms d @ links_inserted [(rq, True)]"
  by (cases rq) (auto split: option.splits)

lemma call_execute:
  assumes "execute rq w = (ok, w')"
  shows "call w w' ok [(rq, ok)]"
proof -
  note o = execute_obs[OF assms] and d = execute_db[OF assms]
  have "meeting_forms (db w') = meeting_forms (db w) @ links_inserted [(rq, ok)]"
  proof (cases ok)
    case False
    with d(1) show ?thesis by (cases rq) simp_all
  next
    case True
    with d obtain d' where d': "effect rq (db w) = Some d'" "db w' = d'" by auto
    from effect_links[OF d'(1)] d'(2) True show ?thesis by simp
  qed
  with o show ?thesis unfolding call_def by (cases ok) simp_all
qed

lemma call_seq:
  assumes "call w w1 True t1" "call w1 w2 ok t2"
  shows "call w w2 ok (t1 @ t2)"
  using assms stopped_append[of t1 t2]
  unfolding call_def by (cases ok) (simp_all add: links_inserted_append)

lemma call_insert_batches:
  assumes "insert_batches tn bss w = (ok, w')"
  shows "\<exists>t. call w w' ok t \<and> links_inserted t = []"
  using insert_batches_summary[OF assms] unfolding call_def by auto

lemma call_insert_links:
  assumes "insert_links m fs w = (ok, w')"
  shows "\<exists>t k. call w w' ok t \<and> links_inserted t = map (Pair m) (take k fs) \<and>
           pools (db w') = pools (db w) \<and> meetings_metadata (db w') = meetings_metadata (db w)"
proof -
  from insert_links_summary[OF assms] obtain t k where
    "trace w' = trace w @ t" "shown w' = shown w"
    "if ok then all_answered t else stopped_at_failure t"
    "links_inserted t = map (Pair m) (take k fs)"
    "meeting_forms (db w') = meeting_forms (db w) @ map (Pair m) (take k fs)"
    "pools (db w') = pools (db w)"
    "meetings_metadata (db w') = meetings_metadata (db w)" by blast
  then show ?thesis unfolding call_def by (intro exI[of _ t] exI[of _ k]) simp
qed

lemma not_link [simp]:
  "links_inserted [(InsertMeeting tn mn now mx, b)] = []"
  "links_inserted [(CreateTable tn, b)] = []"
  "links_inserted [(SelectLimit1 tn, b)] = []"
  "links_inserted [(DeleteMeeting tn, b)] = []"
  "links_inserted [(DropTable tn, b)] = []"
  by (cases b; simp)+

lemma create_meeting_try_summary:
  assumes "create_meeting_try w tn mn mx sel now = (ok, w')"
  shows "\<exists>t k. call w w' ok t \<and>
           links_inserted t = map (Pair (next_meeting_id (db w)))
               (take k (case sel of None \<Rightarrow> [] | Some fs \<Rightarrow> fs)) \<and>
           (ok \<longrightarrow> pools (db w') tn = Some (concat (batches batch_size 0 mx)))"
proof -
  let ?mid = "next_meeting_id (db w)"
  let ?fs = "case sel of None \<Rightarrow> [] | Some fs \<Rightarrow> fs"
  obtain a1 w1 where e1: "execute (InsertMeeting tn mn now mx) w = (a1, w1)"
    by (cases "execute (InsertMeeting tn mn now mx) w")
  note c1 = call_execute[OF e1]
  show ?thesis
  proof (cases a1)
    case False
    with assms e1 have "ok = False" "w' = w1" by (simp_all add: create_meeting_try_def)
    with c1 False show ?thesis
      by (intro exI[of _ "[(InsertMeeting tn mn now mx, False)]"] exI[of _ 0]) simp
  next
    case a1: True
    obtain a2 w2 where e2: "execute (CreateTable tn) w1 = (a2, w2)"
      by (cases "execute (CreateTable tn) w1")
    note c2 = call_seq[OF c1[unfolded a1[THEN eqTrueI]] call_execute[OF e2]]
    show ?thesis
    proof (cases a2)
      case False
      with assms e1 a1 e2 have "ok = False" "w' = w2" by (simp_all add: create_meeting_try_def)
      with c2 False show ?thesis
        by (intro exI[of _ "[(InsertMeeting tn mn now mx, True)] @ [(CreateTable tn, False)]"]
            exI[of _ 0]) (simp add: links_inserted_append)
    next
      case a2: True
      from execute_db[OF e2] a2 have p2: "pools (db w2) tn = Some []"
        by (cases "pools (db w1) tn") simp_all
      obtain a3 w3 where e3: "execute (SelectLimit1 tn) w2 = (a3, w3)"
        by (cases "execute (SelectLimit1 tn) w2")
      note c3 = call_seq[OF c2[unfolded a2[THEN eqTrueI]] call_execute[OF e3]]
      show ?thesis
      proof (cases a3)
        case False
        with assms e1 a1 e2 a2 e3 have "ok = False" "w' = w3"
          by (simp_all add: create_meeting_try_def check_table_exists_def)
        with c3 False show ?thesis
          by (intro exI[of _ "([(InsertMeeting tn mn now mx, True)] @ [(CreateTable tn, True)])
                  @ [(SelectLimit1 tn, False)]"] exI[of _ 0]) (simp add: links_inserted_append)
      next
        case a3: True
        from execute_db[OF e3] a3 p2 have p3: "pools (db w3) tn = Some []" by simp
        obtain a4 w4 where e4: "insert_batches tn (batches batch_size 0 mx) w3 = (a4, w4)"
          by (cases "insert_batches tn (batches batch_size 0 mx) w3")
        from call_insert_batches[OF e4] obtain t4 where
          t4: "call w3 w4 a4 t4" "links_inserted t4 = []" by blast
        let ?t3 = "([(InsertMeeting tn mn now mx, True)] @ [(CreateTable tn, True)])
                  @ [(SelectLimit1 tn, True)]"
        note c4 = call_seq[OF c3[unfolded a3[THEN eqTrueI]] t4(1)]
        have l4: "links_inserted (?t3 @ t4) = []" using t4(2) by (simp add: links_inserted_append)
        show ?thesis
        proof (cases a4)
          case False
          with assms e1 a1 e2 a2 e3 a3 e4 have "ok = False" "w' = w4"
            by (simp_all add: create_meeting_try_def check_table_exists_def)
          with c4 False l4 show ?thesis
            by (intro exI[of _ "?t3 @ t4"] exI[of _ 0]) simp
        next
          case a4: True
          from insert_batches_pool[OF e4[unfolded a4[THEN eqTrueI]] p3]
          have p4: "pools (db w4) tn = Some (concat (batches batch_size 0 mx))" by simp
          show ?thesis
          proof (cases sel)
            case None
            with assms e1 a1 e2 a2 e3 a3 e4 a4 have "ok = True" "w' = w4"
              by (simp_all add: create_meeting_try_def check_table_exists_def)
            with c4 a4 l4 p4 None show ?thesis
              by (intro exI[of _ "?t3 @ t4"] exI[of _ 0]) simp
          next
            case (Some fs)
            with assms e1 a1 e2 a2 e3 a3 e4 a4 have e5: "insert_links ?mid fs w4 = (ok, w')"
              by (simp add: create_meeting_try_def check_table_exists_def Let_def)
            from call_insert_links[OF e5] obtain t5 k where
              t5: "call w4 w' ok t5" "links_inserted t5 = map (Pair ?mid) (take k fs)"
              "pools (db w') = pools (db w4)" by blast
            note c5 = call_seq[OF c4[unfolded a4[THEN eqTrueI]] t5(1)]
            have "links_inserted ((?t3 @ t4) @ t5) = map (Pair ?mid) (take k ?fs)"
              using l4 t5(2) Some by (simp only: links_inserted_append[of "?t3 @ t4" t5]) simp
            with c5 p4 t5(3) show ?thesis
              by (intro exI[of _ "(?t3 @ t4) @ t5"] exI[of _ k]) simp
          qed
        qed
      qed
    qed
  qed
qed

lemma create_meeting_table_success:
  assumes "create_meeting_table w tn mn mx sel now = (True, w')"
  shows "create_meeting_try w tn mn mx sel now = (True, w')"
proof -
  obtain a w1 where t: "create_meeting_try w tn mn mx sel now = (a, w1)"
    by (cases "create_meeting_try w tn mn mx sel now")
  with assms show ?thesis
    by (cases a) (auto simp: create_meeting_table_def Let_def split: prod.splits bool.splits)
qed

lemma create_meeting_table_failure:
  assumes "create_meeting_table w tn mn mx sel now = (False, w')"
  obtains w1 a w3 b w4 where
    "create_meeting_try w tn mn mx sel now = (False, w1)"
    "execute (DeleteMeeting tn) (st_error Erro_criar_tabela w1) = (a, w3)"
    "execute (DropTable tn) w3 = (b, w4)"
    "w' = (if a then (if b then w4 else st_error Erro_rollback w4) else st_error Erro_rollback w3)"
proof -
  obtain c w1 where t: "create_meeting_try w tn mn mx sel now = (c, w1)"
    by (cases "create_meeting_try w tn mn mx sel now")
  obtain a w3 where e1: "execute (DeleteMeeting tn) (st_error Erro_criar_tabela w1) = (a, w3)"
    by (cases "execute (DeleteMeeting tn) (st_error Erro_criar_tabela w1)")
  obtain b w4 where e2: "execute (DropTable tn) w3 = (b, w4)"
    by (cases "execute (DropTable tn) w3")
  from assms t have c: "\<not> c" by (cases c) (simp_all add: create_meeting_table_def)
  with assms t e1 e2
  have "w' = (if a then (if b then w4 else st_error Erro_rollback w4) else st_error Erro_rollback w3)"
    by (cases a; cases b) (simp_all add: create_meeting_table_def Let_def)
  with that[OF _ e1 e2] t c show ?thesis by simp
qed

text \<open>
  When the allocation block returns, it has done to the pool table what \<open>assign_or_get\<close>
  does to the pool, and has shown no error.
\<close>

lemma allocation_block_answered:
  assumes "allocation_block w tn u r now = (Some out, w')"
  shows "\<exists>p p'. pools (db w) tn = Some p \<and> pools (db w') tn = Some p' \<and>
             assign_or_get p u r now = (out, p') \<and> shown w' = shown w"
proof -
  obtain a1 w1 where e1: "execute (SelectSlotsOfUser tn u) w = (a1, w1)"
    by (cases "execute (SelectSlotsOfUser tn u) w")
  from assms e1 have a1: a1 by (cases a1) (simp_all add: allocation_block_def)
  note o1 = execute_obs[OF e1] and d1 = execute_db[OF e1]
  from d1(2)[OF a1] obtain p where p: "pools (db w) tn = Some p"
    by (cases "pools (db w) tn") simp_all
  with d1(1) a1 have db1: "db w1 = db w" by simp
  show ?thesis
  proof (cases "select_user_id_eq p u")
    case (Cons s ss)
    with assms e1 a1 db1 p have "out = Inr (number s)" "w' = w1"
      by (auto simp: allocation_block_def)
    with Cons p db1 o1 show ?thesis by (simp add: assign_or_get_def)
  next
    case Nil
    obtain a2 w2 where e2: "execute (SelectUnassigned tn) w1 = (a2, w2)"
      by (cases "execute (SelectUnassigned tn) w1")
    from assms e1 a1 db1 p Nil e2 have a2: a2 by (cases a2) (simp_all add: allocation_block_def)
    note o2 = execute_obs[OF e2] and d2 = execute_db[OF e2]
    from d2(1) a2 db1 p have db2: "db w2 = db w" by simp
    show ?thesis
    proof (cases "select_assigned_false p")
      case none: Nil
      with assms e1 a1 db1 p Nil e2 a2 db2 have "out = Inl PoolExhausted" "w' = w2"
        by (auto simp: allocation_block_def)
      with Nil none p db2 o1 o2 show ?thesis by (simp add: assign_or_get_def)
    next
      case (Cons f fs)
      let ?n = "random_choice r (map number (f # fs))"
      obtain a3 w3 where e3: "execute (UpdateSlot tn ?n now u) w2 = (a3, w3)"
        by (cases "execute (UpdateSlot tn ?n now u) w2")
      from assms e1 a1 db1 p Nil e2 a2 db2 Cons e3 have a3: a3
        by (cases a3) (simp_all add: allocation_block_def Let_def)
      with assms e1 a1 db1 p Nil e2 a2 db2 Cons e3 have r: "out = Inr ?n" "w' = w3"
        by (auto simp: allocation_block_def Let_def)
      note o3 = execute_obs[OF e3] and d3 = execute_db[OF e3]
      from d3(1) a3 db2 p have "pools (db w3) tn = Some (update_number_eq p ?n now u)" by simp
      with r Nil Cons p o1 o2 o3 show ?thesis by (simp add: assign_or_get_def Let_def)
    qed
  qed
qed


section \<open>Completeness of pool creation\<close>



section \<open>The compensating rollback\<close>

text \<open>
  Claim C5, as stated, asks that after any failed step the operation attempts to delete
  both the pool table and the metadata record. The run below refutes it: the metadata
  insert, the table creation and the probe are answered, the batch insert raises, and so
  does the deletion of the metadata row; the handler then leaves its \<^verbatim>\<open>try\<close> block, so
  no request to drop the table is ever issued, and both the metadata row and the empty
  table remain.
\<close>

theorem C5_rollback_counterexample:
  "fst (create_meeting_table (world_of empty_db [False, False, False, True, True])
          ''meeting_1_a'' ''a'' 3 None ''t'') = False \<and>
   trace (snd (create_meeting_table (world_of empty_db [False, False, False, True, True])
          ''meeting_1_a'' ''a'' 3 None ''t''))
     = [(InsertMeeting ''meeting_1_a'' ''a'' ''t'' 3, True),
        (CreateTable ''meeting_1_a'', True),
        (SelectLimit1 ''meeting_1_a'', True),
        (InsertSlots ''meeting_1_a'' (map unassigned_row [1, 2, 3]), False),
        (DeleteMeeting ''meeting_1_a'', False)] \<and>
   pools (db (snd (create_meeting_table (world_of empty_db [False, False, False, True, True])
          ''meeting_1_a'' ''a'' 3 None ''t''))) ''meeting_1_a'' = Some [] \<and>
   map table_name (meetings_metadata (db (snd (create_meeting_table
          (world_of empty_db [False, False, False, True, True])
          ''meeting_1_a'' ''a'' 3 None ''t'')))) = [''meeting_1_a'']"
  by (simp add: create_meeting_table_def create_meeting_try_def check_table_exists_def
        execute_def world_of_def empty_db_def Let_def batches.simps batch_size_def st_error_def
        upto_rec1)

text \<open>
  Claim C5, amended. \<^verbatim>\<open>create_meeting_table\<close> returns \<^verbatim>\<open>True\<close> only when every request it
  issued was answered, and then it shows no error. When a step of the \<^verbatim>\<open>try\<close> block
  fails, the requests up to that failure are followed by the request to delete the
  metadata row and, only when that request is answered, by the request to drop the pool
  table; the creation error is shown, a rollback error is shown as well when one of the
  two rollback requests raises, and the result is \<^verbatim>\<open>False\<close>.
\<close>

theorem C5_rollback_best_effort:
  assumes "create_meeting_table w tn mn mx sel now = (ok, w')"
  shows "(ok \<longrightarrow> all_answered (new_trace w w') \<and> new_shown w w' = []) \<and>
         (\<not> ok \<longrightarrow> (\<exists>t. stopped_at_failure t \<and>
            (new_trace w w' = t @ [(DeleteMeeting tn, False)]
               \<and> new_shown w w' = [Erro_criar_tabela, Erro_rollback]
             \<or> new_trace w w' = t @ [(DeleteMeeting tn, True), (DropTable tn, False)]
               \<and> new_shown w w' = [Erro_criar_tabela, Erro_rollback]
             \<or> new_trace w w' = t @ [(DeleteMeeting tn, True), (DropTable tn, True)]
               \<and> new_shown w w' = [Erro_criar_tabela])))"
proof (cases ok)
  case True
  with assms have "create_meeting_try w tn mn mx sel now = (True, w')"
    by (simp add: create_meeting_table_success)
  from create_meeting_try_summary[OF this] obtain t where "call w w' True t" by blast
  then have "trace w' = trace w @ t" "shown w' = shown w @ []" "all_answered t"
    by (simp_all add: call_def)
  with True show ?thesis by (simp add: new_trace_eq new_shown_eq)
next
  case False
  with assms have f: "create_meeting_table w tn mn mx sel now = (False, w')" by simp
  from f obtain w1 a w3 b w4 where
    t: "create_meeting_try w tn mn mx sel now = (False, w1)" and
    e1: "execute (DeleteMeeting tn) (st_error Erro_criar_tabela w1) = (a, w3)" and
    e2: "execute (DropTable tn) w3 = (b, w4)" and
    w': "w' = (if a then (if b then w4 else st_error Erro_rollback w4) else st_error Erro_rollback w3)"
    by (rule create_meeting_table_failure)
  from create_meeting_try_summary[OF t] obtain t0 where "call w w1 False t0" by blast
  then have c: "trace w1 = trace w @ t0" "shown w1 = shown w" "stopped_at_failure t0"
    by (simp_all add: call_def)
  note o1 = execute_obs[OF e1] and o2 = execute_obs[OF e2]
  have tr3: "trace w3 = trace w @ t0 @ [(DeleteMeeting tn, a)]"
    and sh3: "shown w3 = shown w @ [Erro_criar_tabela]"
    using o1 c by simp_all
  have tr4: "trace w4 = trace w @ t0 @ [(DeleteMeeting tn, a), (DropTable tn, b)]"
    and sh4: "shown w4 = shown w @ [Erro_criar_tabela]"
    using o2 tr3 sh3 by simp_all
  consider "\<not> a" | "a" "\<not> b" | "a" "b" by blast
  then have "new_trace w w' = t0 @ [(DeleteMeeting tn, False)]
               \<and> new_shown w w' = [Erro_criar_tabela, Erro_rollback]
             \<or> new_trace w w' = t0 @ [(DeleteMeeting tn, True), (DropTable tn, False)]
               \<and> new_shown w w' = [Erro_criar_tabela, Erro_rollback]
             \<or> new_trace w w' = t0 @ [(DeleteMeeting tn, True), (DropTable tn, True)]
               \<and> new_shown w w' = [Erro_criar_tabela]"
  proof cases
    case 1
    with w' tr3 sh3 have "trace w' = trace w @ (t0 @ [(DeleteMeeting tn, False)])"
      "shown w' = shown w @ [Erro_criar_tabela, Erro_rollback]" by simp_all
    then show ?thesis by (simp only: new_trace_eq new_shown_eq) simp
  next
    case 2
    with w' tr4 sh4 have "trace w' = trace w @ (t0 @ [(DeleteMeeting tn, True), (DropTable tn, False)])"
      "shown w' = shown w @ [Erro_criar_tabela, Erro_rollback]" by simp_all
    then show ?thesis by (simp only: new_trace_eq new_shown_eq) simp
  next
    case 3
    with w' tr4 sh4 have "trace w' = trace w @ (t0 @ [(DeleteMeeting tn, True), (DropTable tn, True)])"
      "shown w' = shown w @ [Erro_criar_tabela]" by simp_all
    then show ?thesis by (simp only: new_trace_eq new_shown_eq) simp
  qed
  with c(3) False show ?thesis by blast
qed

theorem C5_rollback_best_effort_witness:
  "create_meeting_table (world_of empty_db [False, False, False, True]) ''meeting_1_a'' ''a'' 3 None ''t''
     = (False, \<lparr>db = empty_db\<lparr>next_meeting_id := 2\<rparr>, faults = [],
          trace = [(InsertMeeting ''meeting_1_a'' ''a'' ''t'' 3, True),
                   (CreateTable ''meeting_1_a'', True),
                   (SelectLimit1 ''meeting_1_a'', True),
                   (InsertSlots ''meeting_1_a'' (map unassigned_row [1, 2, 3]), False),
                   (DeleteMeeting ''meeting_1_a'', True),
                   (DropTable ''meeting_1_a'', True)],
          shown = [Erro_criar_tabela]\<rparr>) \<and>
   (\<exists>t. stopped_at_failure t \<and>
      new_trace (world_of empty_db [False, False, False, True])
        (snd (create_meeting_table (world_of empty_db [False, False, False, True])
               ''meeting_1_a'' ''a'' 3 None ''t''))
        = t @ [(DeleteMeeting ''meeting_1_a'', True), (DropTable ''meeting_1_a'', True)])"
proof -
  let ?w = "world_of empty_db [False, False, False, True]"
  let ?r = "create_meeting_table ?w ''meeting_1_a'' ''a'' 3 None ''t''"
  have run: "?r = (False, \<lparr>db = empty_db\<lparr>next_meeting_id := 2\<rparr>, faults = [],
          trace = [(InsertMeeting ''meeting_1_a'' ''a'' ''t'' 3, True),
                   (CreateTable ''meeting_1_a'', True),
                   (SelectLimit1 ''meeting_1_a'', True),
                   (InsertSlots ''meeting_1_a'' (map unassigned_row [1, 2, 3]), False),
                   (DeleteMeeting ''meeting_1_a'', True),
                   (DropTable ''meeting_1_a'', True)],
          shown = [Erro_criar_tabela]\<rparr>)"
    by (simp add: create_meeting_table_def create_meeting_try_def check_table_exists_def
        execute_def world_of_def empty_db_def Let_def batches.simps batch_size_def st_error_def
        upto_rec1)
  then have h: "?r = (False, snd ?r)" by simp
  have "shown (snd ?r) = [Erro_criar_tabela]" by (simp add: run)
  then have sh: "new_shown ?w (snd ?r) = [Erro_criar_tabela]"
    by (simp add: new_shown_def world_of_def)
  from C5_rollback_best_effort [OF h] sh
  have "\<exists>t. stopped_at_failure t \<and>
      new_trace ?w (snd ?r) = t @ [(DeleteMeeting ''meeting_1_a'', True), (DropTable ''meeting_1_a'', True)]"
    by auto
  with run show ?thesis by blast
qed

section \<open>What the rollback leaves behind\<close>

text \<open>
  Claim C9. When \<^verbatim>\<open>create_meeting_table\<close> fails, the \<open>meeting_forms\<close> table afterwards is
  the table before followed by the links of the new meeting to the first \<open>k\<close> selected
  forms, namely those whose insert was answered before the failure: the rollback removes
  none of them. When the rollback raises no error it has removed the metadata row and
  the pool table, so these links point to a meeting that no longer exists.
\<close>

theorem C9_links_survive_rollback:
  assumes "create_meeting_table w tn mn mx sel now = (False, w')"
  shows "(\<exists>k. meeting_forms (db w') = meeting_forms (db w) @
                 map (Pair (next_meeting_id (db w)))
                   (take k (case sel of None \<Rightarrow> [] | Some fs \<Rightarrow> fs)) \<and>
              links_inserted (new_trace w w') =
                 map (Pair (next_meeting_id (db w)))
                   (take k (case sel of None \<Rightarrow> [] | Some fs \<Rightarrow> fs))) \<and>
         (Erro_rollback \<notin> set (new_shown w w') \<longrightarrow>
            pools (db w') tn = None \<and>
            (\<forall>m\<in>set (meetings_metadata (db w')). table_name m \<noteq> tn))"
proof -
  let ?fs = "case sel of None \<Rightarrow> [] | Some fs \<Rightarrow> fs"
  let ?mid = "next_meeting_id (db w)"
  from assms obtain w1 a w3 b w4 where
    t: "create_meeting_try w tn mn mx sel now = (False, w1)" and
    e1: "execute (DeleteMeeting tn) (st_error Erro_criar_tabela w1) = (a, w3)" and
    e2: "execute (DropTable tn) w3 = (b, w4)" and
    w': "w' = (if a then (if b then w4 else st_error Erro_rollback w4) else st_error Erro_rollback w3)"
    by (rule create_meeting_table_failure)
  from create_meeting_try_summary[OF t] obtain t0 k where
    c0: "call w w1 False t0" and l0: "links_inserted t0 = map (Pair ?mid) (take k ?fs)" by blast
  from c0 have c: "trace w1 = trace w @ t0" "stopped_at_failure t0"
    "meeting_forms (db w1) = meeting_forms (db w) @ links_inserted t0"
    by (simp_all add: call_def)
  note o1 = execute_obs[OF e1] and o2 = execute_obs[OF e2]
  note d1 = execute_db[OF e1] and d2 = execute_db[OF e2]
  have db3: "db w3 = (if a then (db w1)\<lparr>meetings_metadata :=
                 filter (\<lambda>m. table_name m \<noteq> tn) (meetings_metadata (db w1))\<rparr> else db w1)"
    using d1(1) by simp
  have db4: "db w4 = (if b then (db w3)\<lparr>pools := (pools (db w3))(tn := None)\<rparr> else db w3)"
    using d2(1) by simp
  have mf: "meeting_forms (db w') = meeting_forms (db w1)"
    using w' db3 db4 by (cases a; cases b) simp_all
  have tr: "new_trace w w' = t0 @ (if a then [(DeleteMeeting tn, True), (DropTable tn, b)]
                                   else [(DeleteMeeting tn, False)])"
  proof -
    have "trace w' = trace w @ (t0 @ (if a then [(DeleteMeeting tn, True), (DropTable tn, b)]
                                   else [(DeleteMeeting tn, False)]))"
      using w' o1 o2 c(1) by (cases a; cases b) simp_all
    then show ?thesis by (rule new_trace_eq)
  qed
  have li: "links_inserted (new_trace w w') = links_inserted t0"
    unfolding tr by (cases a; cases b) (simp_all add: links_inserted_append)
  have first: "\<exists>k. meeting_forms (db w') = meeting_forms (db w) @ map (Pair ?mid) (take k ?fs) \<and>
              links_inserted (new_trace w w') = map (Pair ?mid) (take k ?fs)"
    using mf c(3) l0 li by (intro exI[of _ k]) simp
  have sh: "new_shown w w' = Erro_criar_tabela # (if a \<and> b then [] else [Erro_rollback])"
  proof -
    from c0 have "shown w1 = shown w" by (simp add: call_def)
    then have "shown w' = shown w @ (Erro_criar_tabela # (if a \<and> b then [] else [Erro_rollback]))"
      using w' o1 o2 by (cases a; cases b) simp_all
    then show ?thesis by (rule new_shown_eq)
  qed
  have second: "pools (db w') tn = None \<and> (\<forall>m\<in>set (meetings_metadata (db w')). table_name m \<noteq> tn)"
    if quiet: "Erro_rollback \<notin> set (new_shown w w')"
  proof -
    from quiet sh have ab: "a" "b" by (cases a; cases b; simp)+
    with w' db3 db4 have "db w' = (db w1)\<lparr>meetings_metadata :=
                 filter (\<lambda>m. table_name m \<noteq> tn) (meetings_metadata (db w1)),
                 pools := (pools (db w1))(tn := None)\<rparr>" by simp
    then show ?thesis by simp
  qed
  from first second show ?thesis by blast
qed
theorem C9_links_survive_rollback_witness:
  "create_meeting_table (world_of empty_db [False, False, False, False, False, True])
      ''meeting_1_a'' ''a'' 3 (Some [7, 8]) ''t''
     = (False, \<lparr>db = empty_db\<lparr>next_meeting_id := 2, meeting_forms := [(1, 7)]\<rparr>, faults = [],
          trace = [(InsertMeeting ''meeting_1_a'' ''a'' ''t'' 3, True),
                   (CreateTable ''meeting_1_a'', True),
                   (SelectLimit1 ''meeting_1_a'', True),
                   (InsertSlots ''meeting_1_a'' (map unassigned_row [1, 2, 3]), True),
                   (InsertLink 1 7, True),
                   (InsertLink 1 8, False),
                   (DeleteMeeting ''meeting_1_a'', True),
                   (DropTable ''meeting_1_a'', True)],
          shown = [Erro_criar_tabela]\<rparr>) \<and>
   pools (db (snd (create_meeting_table (world_of empty_db [False, False, False, False, False, True])
      ''meeting_1_a'' ''a'' 3 (Some [7, 8]) ''t''))) ''meeting_1_a'' = None"
proof -
  let ?w = "world_of empty_db [False, False, False, False, False, True]"
  let ?r = "create_meeting_table ?w ''meeting_1_a'' ''a'' 3 (Some [7, 8]) ''t''"
  have run: "?r = (False, \<lparr>db = empty_db\<lparr>next_meeting_id := 2, meeting_forms := [(1, 7)]\<rparr>, faults = [],
          trace = [(InsertMeeting ''meeting_1_a'' ''a'' ''t'' 3, True),
                   (CreateTable ''meeting_1_a'', True),
                   (SelectLimit1 ''meeting_1_a'', True),
                   (InsertSlots ''meeting_1_a'' (map unassigned_row [1, 2, 3]), True),
                   (InsertLink 1 7, True),
                   (InsertLink 1 8, False),
                   (DeleteMeeting ''meeting_1_a'', True),
                   (DropTable ''meeting_1_a'', True)],
          shown = [Erro_criar_tabela]\<rparr>)"
    by (simp add: create_meeting_table_def create_meeting_try_def check_table_exists_def
        execute_def world_of_def empty_db_def Let_def batches.simps batch_size_def st_error_def
        upto_rec1)
  then have h: "?r = (False, snd ?r)" by simp
  have "shown (snd ?r) = [Erro_criar_tabela]" by (simp add: run)
  then have sh: "Erro_rollback \<notin> set (new_shown ?w (snd ?r))"
    by (simp add: new_shown_def world_of_def)
  from C9_links_survive_rollback [OF h] sh
  have "pools (db (snd ?r)) ''meeting_1_a'' = None" by blast
  with run show ?thesis by blast
qed

section \<open>Catalog accessors: what the caller gets\<close>

lemma select_effect [simp]:
  "effect SelectMeetings d = Some d" "effect SelectForms d = Some d"
  "effect (SelectLinks m) d = Some d" "effect (SelectFormsIn ids) d = Some d"
  "effect (SelectResponsesOf p) d = Some d" "effect (SelectFormByTable t) d = Some d"
  "effect (SelectQuestionsOf f) d = Some d" "effect (SelectOptionsOf q) d = Some d"
  "effect (SelectMeetingByTable t) d = Some d" "effect (SelectResponsesIn ids) d = Some d"
  "effect (SelectQuestion q) d = Some d" "effect (SelectOption a) d = Some d"
  by simp_all

lemma execute_select:
  assumes "execute rq w = (ok, w')" "effect rq (db w) = Some (db w)"
  shows "db w' = db w" "shown w' = shown w" "new_trace w w' = [(rq, ok)]"
        "new_shown w w' = []"
  using execute_obs[OF assms(1)] execute_db[OF assms(1)] assms(2)
  by (simp_all add: new_trace_def new_shown_def)

lemma get_available_meetings_obs:
  assumes "get_available_meetings w = (rows, w')"
  shows "db w' = db w \<and>
         (if all_answered (new_trace w w')
          then rows = meetings_metadata (db w) \<and> new_shown w w' = []
          else rows = [] \<and> new_shown w w' = [Erro_recuperar_reunioes])"
proof -
  obtain ok w1 where e: "execute SelectMeetings w = (ok, w1)" by (cases "execute SelectMeetings w")
  note s = execute_select[OF e] and o = execute_obs[OF e]
  show ?thesis
  proof (cases ok)
    case True
    with assms e have "rows = meetings_metadata (db w1)" "w' = w1"
      by (auto simp: get_available_meetings_def)
    with s True show ?thesis by simp
  next
    case False
    with assms e have "rows = []" "w' = st_error Erro_recuperar_reunioes w1"
      by (simp_all add: get_available_meetings_def)
    with s o False show ?thesis by (simp add: new_trace_def new_shown_def)
  qed
qed

lemma get_available_forms_obs:
  assumes "get_available_forms w = (rows, w')"
  shows "db w' = db w \<and>
         (if all_answered (new_trace w w')
          then rows = forms_metadata (db w) \<and> new_shown w w' = []
          else rows = [] \<and> new_shown w w' = [Erro_recuperar_formularios])"
proof -
  obtain ok w1 where e: "execute SelectForms w = (ok, w1)" by (cases "execute SelectForms w")
  note s = execute_select[OF e] and o = execute_obs[OF e]
  show ?thesis
  proof (cases ok)
    case True
    with assms e have "rows = forms_metadata (db w1)" "w' = w1"
      by (auto simp: get_available_forms_def)
    with s True show ?thesis by simp
  next
    case False
    with assms e have "rows = []" "w' = st_error Erro_recuperar_formularios w1"
      by (simp_all add: get_available_forms_def)
    with s o False show ?thesis by (simp add: new_trace_def new_shown_def)
  qed
qed

lemma get_answered_forms_obs:
  assumes "get_answered_forms w pid = (fs, w')"
  shows "db w' = db w \<and>
         (if all_answered (new_trace w w')
          then fs = r_form_id ` {r \<in> set (responses (db w)). participant_id r = pid} \<and>
               new_shown w w' = []
          else fs = {} \<and> new_shown w w' = [Erro_formularios_respondidos])"
proof -
  obtain ok w1 where e: "execute (SelectResponsesOf pid) w = (ok, w1)"
    by (cases "execute (SelectResponsesOf pid) w")
  note s = execute_select[OF e] and o = execute_obs[OF e]
  show ?thesis
  proof (cases ok)
    case True
    with assms e have "fs = set (map r_form_id (filter (\<lambda>r. participant_id r = pid) (responses (db w1))))"
      "w' = w1" by (auto simp: get_answered_forms_def)
    with s True show ?thesis by simp
  next
    case False
    with assms e have "fs = {}" "w' = st_error Erro_formularios_respondidos w1"
      by (simp_all add: get_answered_forms_def)
    with s o False show ?thesis by (simp add: new_trace_def new_shown_def)
  qed
qed

lemma get_forms_for_meeting_obs:
  assumes "get_forms_for_meeting w mid = (rows, w')"
  shows "db w' = db w \<and>
         (if all_answered (new_trace w w')
          then rows = filter (\<lambda>f. f_id f \<in> snd ` {l \<in> set (meeting_forms (db w)). fst l = mid})
                        (forms_metadata (db w)) \<and> new_shown w w' = []
          else rows = [] \<and> new_shown w w' = [Erro_formularios_reuniao])"
proof -
  obtain ok w1 where e: "execute (SelectLinks mid) w = (ok, w1)"
    by (cases "execute (SelectLinks mid) w")
  note s = execute_select[OF e] and o = execute_obs[OF e]
  let ?ids = "map snd (filter (\<lambda>l. fst l = mid) (meeting_forms (db w)))"
  have ids: "set ?ids = snd ` {l \<in> set (meeting_forms (db w)). fst l = mid}" by auto
  show ?thesis
  proof (cases ok)
    case False
    with assms e have "rows = []" "w' = st_error Erro_formularios_reuniao w1"
      by (simp_all add: get_forms_for_meeting_def)
    with s o False show ?thesis by (simp add: new_trace_def new_shown_def)
  next
    case True
    show ?thesis
    proof (cases "?ids = []")
      case none: True
      with assms e True s have r: "rows = []" "w' = w1"
        by (auto simp: get_forms_for_meeting_def Let_def)
      from none ids have "snd ` {l \<in> set (meeting_forms (db w)). fst l = mid} = {}"
        by (metis set_empty)
      then have "filter (\<lambda>f. f_id f \<in> snd ` {l \<in> set (meeting_forms (db w)). fst l = mid})
                        (forms_metadata (db w)) = []" by (simp only: empty_iff) simp
      with r show ?thesis using s True by simp
    next
      case some: False
      obtain ok2 w2 where e2: "execute (SelectFormsIn ?ids) w1 = (ok2, w2)"
        by (cases "execute (SelectFormsIn ?ids) w1")
      note o2 = execute_obs[OF e2] and d2 = execute_db[OF e2]
      from d2 s(1) have db2: "db w2 = db w" by (cases ok2) simp_all
      have tr2: "trace w2 = trace w @ [(SelectLinks mid, True), (SelectFormsIn ?ids, ok2)]"
        using o o2 True by simp
      show ?thesis
      proof (cases ok2)
        case ok2: True
        with assms e True s some e2 have "rows = filter (\<lambda>f. f_id f \<in> set ?ids) (forms_metadata (db w2))"
          "w' = w2" by (auto simp: get_forms_for_meeting_def Let_def)
        with db2 tr2 ok2 o o2 ids show ?thesis by (simp add: new_trace_def new_shown_def)
      next
        case no2: False
        with assms e True s some e2 have "rows = []" "w' = st_error Erro_formularios_reuniao w2"
          by (auto simp: get_forms_for_meeting_def Let_def)
        with db2 tr2 no2 o o2 show ?thesis by (simp add: new_trace_def new_shown_def)
      qed
    qed
  qed
qed

section \<open>Failures inside the catalog accessors\<close>

lemmas accessor_simps = get_available_meetings_def get_available_forms_def
  get_forms_for_meeting_def get_answered_forms_def execute_def world_of_def empty_db_def
  st_error_def Let_def

text \<open>
  Claim C7, as stated, asks for an error that the caller can tell apart from an empty
  result when the query fails. The runs below refute it for each of the four accessors:
  on a store with no rows the answered query and the failed query hand the same empty
  collection to the caller. The failure leaves its only mark in the message shown to the
  user.
\<close>

theorem C7_accessors_counterexample:
  "get_available_meetings (world_of empty_db [])
     = ([], \<lparr>db = empty_db, faults = [], trace = [(SelectMeetings, True)], shown = []\<rparr>) \<and>
   get_available_meetings (world_of empty_db [True])
     = ([], \<lparr>db = empty_db, faults = [], trace = [(SelectMeetings, False)],
             shown = [Erro_recuperar_reunioes]\<rparr>) \<and>
   get_available_forms (world_of empty_db [])
     = ([], \<lparr>db = empty_db, faults = [], trace = [(SelectForms, True)], shown = []\<rparr>) \<and>
   get_available_forms (world_of empty_db [True])
     = ([], \<lparr>db = empty_db, faults = [], trace = [(SelectForms, False)],
             shown = [Erro_recuperar_formularios]\<rparr>) \<and>
   get_forms_for_meeting (world_of empty_db []) 1
     = ([], \<lparr>db = empty_db, faults = [], trace = [(SelectLinks 1, True)], shown = []\<rparr>) \<and>
   get_forms_for_meeting (world_of empty_db [True]) 1
     = ([], \<lparr>db = empty_db, faults = [], trace = [(SelectLinks 1, False)],
             shown = [Erro_formularios_reuniao]\<rparr>) \<and>
   get_answered_forms (world_of empty_db []) ''2''
     = ({}, \<lparr>db = empty_db, faults = [], trace = [(SelectResponsesOf ''2'', True)], shown = []\<rparr>) \<and>
   get_answered_forms (world_of empty_db [True]) ''2''
     = ({}, \<lparr>db = empty_db, faults = [], trace = [(SelectResponsesOf ''2'', False)],
             shown = [Erro_formularios_respondidos]\<rparr>)"
  by (simp add: accessor_simps)

text \<open>
  Claim C7, amended. Every catalog accessor leaves the tables as they are. When its
  queries are answered it returns the matching rows, hence the empty collection when
  there are none, and shows no error. When a query fails it shows its error message and
  returns the empty collection, the same value as for an answered query without rows.
\<close>

theorem C7_accessors_hide_failures:
  "(case get_available_meetings w of (rows, w') \<Rightarrow>
      db w' = db w \<and>
      (if all_answered (new_trace w w')
       then rows = meetings_metadata (db w) \<and> new_shown w w' = []
       else rows = [] \<and> new_shown w w' = [Erro_recuperar_reunioes])) \<and>
   (case get_available_forms w of (rows, w') \<Rightarrow>
      db w' = db w \<and>
      (if all_answered (new_trace w w')
       then rows = forms_metadata (db w) \<and> new_shown w w' = []
       else rows = [] \<and> new_shown w w' = [Erro_recuperar_formularios])) \<and>
   (case get_forms_for_meeting w mid of (rows, w') \<Rightarrow>
      db w' = db w \<and>
      (if all_answered (new_trace w w')
       then rows = filter (\<lambda>f. f_id f \<in> snd ` {l \<in> set (meeting_forms (db w)). fst l = mid})
                     (forms_metadata (db w)) \<and> new_shown w w' = []
       else rows = [] \<and> new_shown w w' = [Erro_formularios_reuniao])) \<and>
   (case get_answered_forms w pid of (fs, w') \<Rightarrow>
      db w' = db w \<and>
      (if all_answered (new_trace w w')
       then fs = r_form_id ` {r \<in> set (responses (db w)). participant_id r = pid} \<and>
            new_shown w w' = []
       else fs = {} \<and> new_shown w w' = [Erro_formularios_respondidos]))"
proof (intro conjI)
  show "case get_available_meetings w of (rows, w') \<Rightarrow>
      db w' = db w \<and>
      (if all_answered (new_trace w w')
       then rows = meetings_metadata (db w) \<and> new_shown w w' = []
       else rows = [] \<and> new_shown w w' = [Erro_recuperar_reunioes])"
    using get_available_meetings_obs[of w] by (cases "get_available_meetings w") simp
  show "case get_available_forms w of (rows, w') \<Rightarrow>
      db w' = db w \<and>
      (if all_answered (new_trace w w')
       then rows = forms_metadata (db w) \<and> new_shown w w' = []
       else rows = [] \<and> new_shown w w' = [Erro_recuperar_formularios])"
    using get_available_forms_obs[of w] by (cases "get_available_forms w") simp
  show "case get_forms_for_meeting w mid of (rows, w') \<Rightarrow>
      db w' = db w \<and>
      (if all_answered (new_trace w w')
       then rows = filter (\<lambda>f. f_id f \<in> snd ` {l \<in> set (meeting_forms (db w)). fst l = mid})
                     (forms_metadata (db w)) \<and> new_shown w w' = []
       else rows = [] \<and> new_shown w w' = [Erro_formularios_reuniao])"
    using get_forms_for_meeting_obs[of w mid] by (cases "get_forms_for_meeting w mid") simp
  show "case get_answered_forms w pid of (fs, w') \<Rightarrow>
      db w' = db w \<and>
      (if all_answered (new_trace w w')
       then fs = r_form_id ` {r \<in> set (responses (db w)). participant_id r = pid} \<and>
            new_shown w w' = []
       else fs = {} \<and> new_shown w w' = [Erro_formularios_respondidos])"
    using get_answered_forms_obs[of w pid] by (cases "get_answered_forms w pid") simp
qed

theorem C7_accessors_hide_failures_witness:
  "fst (get_available_meetings (world_of example_db [])) = meetings_metadata example_db \<and>
   fst (get_available_meetings (world_of example_db [True])) = [] \<and>
   new_shown (world_of example_db [True]) (snd (get_available_meetings (world_of example_db [True])))
     = [Erro_recuperar_reunioes] \<and>
   fst (get_answered_forms (world_of example_db [True]) ''2'') = {}"
proof -
  have a: "all_answered (new_trace (world_of example_db [])
              (snd (get_available_meetings (world_of example_db []))))"
    by (simp add: accessor_simps new_trace_def all_answered_def)
  have b: "\<not> all_answered (new_trace (world_of example_db [True])
              (snd (get_available_meetings (world_of example_db [True]))))"
    by (simp add: accessor_simps new_trace_def all_answered_def)
  have c: "\<not> all_answered (new_trace (world_of example_db [True])
              (snd (get_answered_forms (world_of example_db [True]) ''2'')))"
    by (simp add: accessor_simps new_trace_def all_answered_def)
  from C7_accessors_hide_failures [of "world_of example_db []" 1 "''2''"] a
  have 1: "fst (get_available_meetings (world_of example_db [])) = meetings_metadata example_db"
    by (simp add: case_prod_beta world_of_def)
  from C7_accessors_hide_failures [of "world_of example_db [True]" 1 "''2''"] b c
  have 2: "fst (get_available_meetings (world_of example_db [True])) = []"
    "new_shown (world_of example_db [True]) (snd (get_available_meetings (world_of example_db [True])))
     = [Erro_recuperar_reunioes]"
    "fst (get_answered_forms (world_of example_db [True]) ''2'') = {}"
    by (simp_all add: case_prod_beta)
  from 1 2 show ?thesis by simp
qed

section \<open>The form page: the steps and the paths through it\<close>

lemma str_nat_nonempty: "str_nat n \<noteq> []"
  by (subst str_nat.simps) simp

lemma str_int_nonempty: "str_int i \<noteq> []"
  by (simp add: str_int_def str_nat_nonempty)

lemma get_available_meetings_cases:
  assumes "get_available_meetings w = (ms, w')"
  shows "db w' = db w \<and>
         (ms = meetings_metadata (db w) \<and> shown w' = shown w \<or>
          ms = [] \<and> shown w' = shown w @ [Erro_recuperar_reunioes])"
proof -
  obtain ok w1 where e: "execute SelectMeetings w = (ok, w1)" by (cases "execute SelectMeetings w")
  note s = execute_select[OF e]
  from assms e s show ?thesis
    by (cases ok) (auto simp: get_available_meetings_def)
qed

lemma get_answered_forms_cases:
  assumes "get_answered_forms w pid = (fs, w')"
  shows "db w' = db w \<and>
         (fs = r_form_id ` {r \<in> set (responses (db w)). participant_id r = pid} \<and> shown w' = shown w \<or>
          fs = {} \<and> shown w' = shown w @ [Erro_formularios_respondidos])"
proof -
  obtain ok w1 where e: "execute (SelectResponsesOf pid) w = (ok, w1)"
    by (cases "execute (SelectResponsesOf pid) w")
  note s = execute_select[OF e]
  from assms e s show ?thesis
    by (cases ok) (auto simp: get_answered_forms_def)
qed

lemma scan_meetings_Return:
  assumes "scan_meetings u ms w = (Return (pid, mt), w')"
  shows "db w' = db w \<and> shown w' = shown w \<and>
         (case find (holds_slot (db w) u) ms of
            None \<Rightarrow> pid = [] \<and> mt = []
          | Some m \<Rightarrow> (\<exists>p. pools (db w) (table_name m) = Some p \<and>
                pid = str_int (number (hd (select_user_id_eq p u))) \<and> mt = table_name m))"
  using assms
proof (induction ms arbitrary: w)
  case Nil
  then show ?case by simp
next
  case (Cons m ms)
  obtain ok w1 where e: "execute (SelectSlotsOfUser (table_name m) u) w = (ok, w1)"
    by (cases "execute (SelectSlotsOfUser (table_name m) u) w")
  from Cons.prems e have ok: ok by (cases ok) simp_all
  note o = execute_obs[OF e] and d = execute_db[OF e]
  from d(2)[OF ok] obtain p where p: "pools (db w) (table_name m) = Some p"
    by (cases "pools (db w) (table_name m)") simp_all
  with d(1) ok have db1: "db w1 = db w" by simp
  show ?case
  proof (cases "select_user_id_eq p u")
    case Nil
    with Cons.prems e ok p db1 have r: "scan_meetings u ms w1 = (Return (pid, mt), w')" by simp
    from Nil p have "\<not> holds_slot (db w) u m" by (simp add: holds_slot_def)
    with Cons.IH[OF r, unfolded db1] db1 o show ?thesis by simp
  next
    case (Cons s ss)
    with Cons.prems e ok p db1 have "pid = str_int (number s)" "mt = table_name m" "w' = w1"
      by auto
    moreover from Cons p have "holds_slot (db w) u m" by (simp add: holds_slot_def)
    ultimately show ?thesis using db1 o p Cons by simp
  qed
qed

lemma scan_meetings_first_bound:
  assumes "scan_meetings u (meetings_metadata (db w)) w = (Return (pid, mt), w')"
  shows "db w' = db w \<and> shown w' = shown w \<and>
         (if pid = [] then first_bound (db w) u = None
          else \<exists>n. first_bound (db w) u = Some (n, mt) \<and> pid = str_int n)"
proof -
  note s = scan_meetings_Return[OF assms]
  show ?thesis
  proof (cases "find (holds_slot (db w) u) (meetings_metadata (db w))")
    case None
    with s show ?thesis by (simp add: first_bound_def)
  next
    case (Some m)
    with s obtain p where "pools (db w) (table_name m) = Some p"
      "pid = str_int (number (hd (select_user_id_eq p u)))" "mt = table_name m" by auto
    with Some s show ?thesis by (simp add: first_bound_def str_int_nonempty)
  qed
qed

lemma in_dict_set_same: "(k, v) \<in> set (dict_set k v al)"
proof (cases "k \<in> fst ` set al")
  case True
  then obtain b where "(k, b) \<in> set al" by auto
  then have "(\<lambda>(k', v'). if k' = k then (k', v) else (k', v')) (k, b)
      \<in> (\<lambda>(k', v'). if k' = k then (k', v) else (k', v')) ` set al" by (rule imageI)
  with True show ?thesis by (simp add: dict_set_def)
next
  case False
  then show ?thesis by (simp add: dict_set_def)
qed

lemma in_dict_set_other:
  assumes "(k, v) \<in> set al" "k \<noteq> k'"
  shows "(k, v) \<in> set (dict_set k' v' al)"
proof (cases "k' \<in> fst ` set al")
  case True
  from assms(1) have "(\<lambda>(a, b). if a = k' then (a, v') else (a, b)) (k, v)
      \<in> (\<lambda>(a, b). if a = k' then (a, v') else (a, b)) ` set al" by (rule imageI)
  with True assms(2) show ?thesis by (simp add: dict_set_def)
next
  case False
  with assms(1) show ?thesis by (simp add: dict_set_def)
qed

lemma collect_responses_Return:
  assumes "collect_responses qs inp acc w = (Return rs, w')"
  shows "db w' = db w \<and> shown w' = shown w \<and>
         (\<forall>k v. (k, v) \<in> set acc \<and> k \<notin> q_id ` set qs \<longrightarrow> (k, v) \<in> set rs)"
  using assms
proof (induction qs arbitrary: acc w)
  case Nil
  then show ?case by simp
next
  case (Cons q qs)
  consider (is_text) "question_type q = ''text''"
    | (mc) "question_type q \<noteq> ''text''" "question_type q = ''multiple_choice''"
    | (other) "question_type q \<noteq> ''text''" "question_type q \<noteq> ''multiple_choice''" by blast
  then show ?case
  proof cases
    case is_text
    with Cons.prems have "collect_responses qs inp (dict_set (q_id q) (PyStr (typed inp (q_id q))) acc) w
        = (Return rs, w')" by simp
    from Cons.IH[OF this] show ?thesis by (auto intro: in_dict_set_other)
  next
    case other
    with Cons.prems have "collect_responses qs inp acc w = (Return rs, w')" by simp
    from Cons.IH[OF this] show ?thesis by auto
  next
    case mc
    obtain ok w1 where e: "execute (SelectOptionsOf (q_id q)) w = (ok, w1)"
      by (cases "execute (SelectOptionsOf (q_id q)) w")
    from Cons.prems mc e have ok: ok by (cases ok) simp_all
    note s = execute_select[OF e]
    show ?thesis
    proof (cases "picked inp (q_id q)")
      case None
      with Cons.prems mc e ok
      have "collect_responses qs inp (dict_set (q_id q) PyNone acc) w1 = (Return rs, w')"
        by (simp add: Let_def)
      from Cons.IH[OF this] s show ?thesis by (auto intro: in_dict_set_other)
    next
      case (Some sel)
      let ?opts = "filter (\<lambda>opt. o_question_id opt = q_id q) (options (db w1))"
      from Cons.prems mc e ok Some obtain i where
        "collect_responses qs inp (dict_set (q_id q) (PyInt (map o_id ?opts ! i)) acc) w1 = (Return rs, w')"
        by (cases "index_of sel (map option_text ?opts)") (simp_all add: Let_def)
      from Cons.IH[OF this] s show ?thesis by (auto intro: in_dict_set_other)
    qed
  qed
qed

lemma collect_responses_missing:
  assumes "collect_responses qs inp acc w = (Return rs, w')"
    "distinct (map q_id qs)" "q \<in> set qs" "answer_missing inp q"
  shows "\<exists>v. (q_id q, v) \<in> set rs \<and> \<not> truthy v"
  using assms
proof (induction qs arbitrary: acc w)
  case Nil
  then show ?case by simp
next
  case (Cons a qs)
  from Cons.prems(2) have fresh: "q_id a \<notin> q_id ` set qs" and d: "distinct (map q_id qs)" by simp_all
  show ?case
  proof (cases "q = a")
    case True
    from Cons.prems(4) True consider (is_text) "question_type a = ''text''" "typed inp (q_id a) = []"
      | (mc) "question_type a \<noteq> ''text''" "question_type a = ''multiple_choice''" "picked inp (q_id a) = None"
      by (auto simp: answer_missing_def)
    then show ?thesis
    proof cases
      case is_text
      with Cons.prems(1) have "collect_responses qs inp (dict_set (q_id a) (PyStr []) acc) w
        = (Return rs, w')" by simp
      from collect_responses_Return[OF this] fresh in_dict_set_same[of "q_id a" "PyStr []" acc]
      have "(q_id a, PyStr []) \<in> set rs" by blast
      with True show ?thesis by (intro exI[of _ "PyStr []"]) simp
    next
      case mc
      obtain ok w1 where e: "execute (SelectOptionsOf (q_id a)) w = (ok, w1)"
        by (cases "execute (SelectOptionsOf (q_id a)) w")
      from Cons.prems(1) mc e have ok: ok by (cases ok) simp_all
      with Cons.prems(1) mc e
      have "collect_responses qs inp (dict_set (q_id a) PyNone acc) w1 = (Return rs, w')"
        by (simp add: Let_def)
      from collect_responses_Return[OF this] fresh in_dict_set_same[of "q_id a" PyNone acc]
      have "(q_id a, PyNone) \<in> set rs" by blast
      with True show ?thesis by (intro exI[of _ PyNone]) simp
    qed
  next
    case False
    with Cons.prems(3) have q: "q \<in> set qs" by simp
    from Cons.prems(1) obtain acc1 w1 where "collect_responses qs inp acc1 w1 = (Return rs, w')"
    proof (cases "question_type a = ''text''")
      case True
      with Cons.prems(1) that show ?thesis by simp
    next
      case nt: False
      show ?thesis
      proof (cases "question_type a = ''multiple_choice''")
        case False
        with nt Cons.prems(1) that show ?thesis by simp
      next
        case True
        obtain ok w1 where e: "execute (SelectOptionsOf (q_id a)) w = (ok, w1)"
          by (cases "execute (SelectOptionsOf (q_id a)) w")
        from Cons.prems(1) nt True e have ok: ok by (cases ok) simp_all
        let ?opts = "filter (\<lambda>opt. o_question_id opt = q_id a) (options (db w1))"
        show ?thesis
        proof (cases "picked inp (q_id a)")
          case None
          with Cons.prems(1) nt True e ok that show ?thesis by (simp add: Let_def)
        next
          case (Some sel)
          with Cons.prems(1) nt True e ok that show ?thesis
            by (cases "index_of sel (map option_text ?opts)") (simp_all add: Let_def)
        qed
      qed
    qed
    from Cons.IH[OF this d q Cons.prems(4)] show ?thesis .
  qed
qed

lemma insert_responses_True:
  assumes "insert_responses fid pid rs w = (True, w')"
  shows "shown w' = shown w \<and>
         db w' = (db w)\<lparr>responses := responses (db w) @ map (response_row fid pid) rs\<rparr>"
  using assms
proof (induction rs arbitrary: w)
  case Nil
  then show ?case by simp
next
  case (Cons e rest)
  obtain ok w1 where x: "execute (InsertResponse (response_row fid pid e)) w = (ok, w1)"
    by (cases "execute (InsertResponse (response_row fid pid e)) w")
  from Cons.prems x have ok: ok and r: "insert_responses fid pid rest w1 = (True, w')"
    by (cases ok; simp)+
  note o = execute_obs[OF x] and d = execute_db[OF x]
  from d(1) ok have "db w1 = (db w)\<lparr>responses := responses (db w) @ [response_row fid pid e]\<rparr>"
    by simp
  with Cons.IH[OF r] o show ?case by simp
qed

lemma participant_form_path:
  assumes run: "participant_form w table u inp = (res, w')"
  obtains
    (crashed) "res = Crashed"
  | (not_found) "res = FormNotFound"
      "filter (\<lambda>f. f_table_name f = table) (forms_metadata (db w)) = []" "db w' = db w"
  | (no_questions) form others where
      "filter (\<lambda>f. f_table_name f = table) (forms_metadata (db w)) = form # others"
      "filter (\<lambda>q. q_form_id q = f_id form) (questions (db w)) = []"
      "res = NoQuestions" "db w' = db w"
  | (unauthorized) form others where
      "filter (\<lambda>f. f_table_name f = table) (forms_metadata (db w)) = form # others"
      "filter (\<lambda>q. q_form_id q = f_id form) (questions (db w)) \<noteq> []"
      "res = Unauthorized" "db w' = db w"
      "first_bound (db w) u = None \<and> shown w' = shown w \<or>
       shown w' = shown w @ [Erro_recuperar_reunioes]"
  | (already) form others n mt where
      "filter (\<lambda>f. f_table_name f = table) (forms_metadata (db w)) = form # others"
      "filter (\<lambda>q. q_form_id q = f_id form) (questions (db w)) \<noteq> []"
      "first_bound (db w) u = Some (n, mt)"
      "res = AlreadySubmitted" "db w' = db w" "shown w' = shown w"
      "\<exists>r\<in>set (responses (db w)). participant_id r = str_int n \<and> r_form_id r = f_id form"
  | (passed) form others n mt rs w5 w6 where
      "filter (\<lambda>f. f_table_name f = table) (forms_metadata (db w)) = form # others"
      "filter (\<lambda>q. q_form_id q = f_id form) (questions (db w)) \<noteq> []"
      "first_bound (db w) u = Some (n, mt)"
      "db w5 = db w"
      "(\<forall>r\<in>set (responses (db w)). \<not> (participant_id r = str_int n \<and> r_form_id r = f_id form))
         \<and> shown w5 = shown w \<or>
       shown w5 = shown w @ [Erro_formularios_respondidos]"
      "collect_responses (filter (\<lambda>q. q_form_id q = f_id form) (questions (db w))) inp [] w5
         = (Return rs, w6)"
      "\<not> pressed inp \<and> res = FormShown \<and> w' = w6 \<or>
       pressed inp \<and> \<not> list_all (\<lambda>e. truthy (snd e)) rs \<and> res = ValidationError \<and> w' = w6 \<or>
       pressed inp \<and> list_all (\<lambda>e. truthy (snd e)) rs \<and> res = Submitted \<and>
         insert_responses (f_id form) (str_int n) rs w6 = (True, w')"
proof -
  obtain a1 w1 where e1: "execute (SelectFormByTable table) w = (a1, w1)"
    by (cases "execute (SelectFormByTable table) w")
  note s1 = execute_select[OF e1]
  show ?thesis
  proof (cases a1)
    case False
    with run e1 have "res = Crashed" by (simp add: participant_form_def)
    then show ?thesis by (rule crashed)
  next
    case a1: True
    let ?F = "filter (\<lambda>f. f_table_name f = table) (forms_metadata (db w))"
    show ?thesis
    proof (cases ?F)
      case Nil
      with run e1 a1 s1 have "res = FormNotFound" "w' = w1" by (auto simp: participant_form_def)
      with Nil s1 show ?thesis by (intro not_found) simp_all
    next
      case (Cons form others)
      let ?fid = "f_id form"
      obtain a2 w2 where e2: "execute (SelectQuestionsOf ?fid) w1 = (a2, w2)"
        by (cases "execute (SelectQuestionsOf ?fid) w1")
      note s2 = execute_select[OF e2]
      from s1 s2 have db2: "db w2 = db w" and sh2: "shown w2 = shown w" by simp_all
      let ?Q = "filter (\<lambda>q. q_form_id q = ?fid) (questions (db w))"
      show ?thesis
      proof (cases a2)
        case False
        with run e1 a1 s1 Cons e2 have "res = Crashed" by (simp add: participant_form_def)
        then show ?thesis by (rule crashed)
      next
        case a2: True
        show ?thesis
        proof (cases "?Q = []")
          case True
          with run e1 a1 s1 Cons e2 a2 db2 have "res = NoQuestions" "w' = w2"
            by (auto simp: participant_form_def Let_def)
          with Cons True db2 show ?thesis by (intro no_questions[of form others]) simp_all
        next
          case Q: False
          obtain ms w3 where e3: "get_available_meetings w2 = (ms, w3)"
            by (cases "get_available_meetings w2")
          from get_available_meetings_cases[OF e3] db2 sh2
          have db3: "db w3 = db w" and m3: "ms = meetings_metadata (db w) \<and> shown w3 = shown w \<or>
             ms = [] \<and> shown w3 = shown w @ [Erro_recuperar_reunioes]" by simp_all
          obtain r4 w4 where e4: "scan_meetings u ms w3 = (r4, w4)"
            by (cases "scan_meetings u ms w3")
          have unfold: "participant_form w table u inp =
            (case r4 of Raise \<Rightarrow> (Crashed, w4)
             | Return (pid, mt) \<Rightarrow>
                 if pid = [] then (Unauthorized, w4) else
                 (case get_answered_forms w4 pid of (answered_forms, w5) \<Rightarrow>
                    if ?fid \<in> answered_forms then (AlreadySubmitted, w5) else
                    (case collect_responses ?Q inp [] w5 of
                       (Raise, w6) \<Rightarrow> (Crashed, w6)
                     | (Return rs, w6) \<Rightarrow>
                         if \<not> pressed inp then (FormShown, w6)
                         else if list_all (\<lambda>e. truthy (snd e)) rs
                         then (case insert_responses ?fid pid rs w6 of
                                 (False, w7) \<Rightarrow> (Crashed, w7)
                               | (True, w7) \<Rightarrow> (Submitted, w7))
                         else (ValidationError, w6))))"
            using e1 a1 s1 Cons e2 a2 db2 Q e3 e4
            by (simp add: participant_form_def Let_def split: attempt.splits prod.splits)
          show ?thesis
          proof (cases r4)
            case Raise
            with run unfold have "res = Crashed" by simp
            then show ?thesis by (rule crashed)
          next
            case (Return pm)
            obtain pid mt where pm: "pm = (pid, mt)" by (cases pm)
            have sc: "db w4 = db w \<and> shown w4 = shown w3 \<and>
                (if pid = [] then first_bound (db w) u = None \<or> ms = []
                 else (\<exists>n. first_bound (db w) u = Some (n, mt) \<and> pid = str_int n) \<and>
                      shown w3 = shown w)"
            proof (cases "ms = []")
              case True
              with e4 Return pm db3 show ?thesis by simp
            next
              case False
              with m3 have ms: "ms = meetings_metadata (db w3)" "shown w3 = shown w"
                using db3 by simp_all
              from e4 Return pm ms(1)
              have "scan_meetings u (meetings_metadata (db w3)) w3 = (Return (pid, mt), w4)" by simp
              from scan_meetings_first_bound[OF this] db3 ms(2) show ?thesis by auto
            qed
            show ?thesis
            proof (cases "pid = []")
              case True
              with run unfold Return pm have r: "res = Unauthorized" "w' = w4" by simp_all
              have "first_bound (db w) u = None" if "meetings_metadata (db w) = []"
                using that by (simp add: first_bound_def)
              with sc True m3 have "first_bound (db w) u = None \<and> shown w4 = shown w \<or>
                  shown w4 = shown w @ [Erro_recuperar_reunioes]" by auto
              with r sc Cons Q show ?thesis by (intro unauthorized[of form others]) simp_all
            next
              case pid: False
              with sc obtain n where n: "first_bound (db w) u = Some (n, mt)" "pid = str_int n"
                and sh4: "shown w4 = shown w" and db4: "db w4 = db w" by auto
              obtain af w5 where e5: "get_answered_forms w4 pid = (af, w5)"
                by (cases "get_answered_forms w4 pid")
              from get_answered_forms_cases[OF e5] db4 sh4
              have db5: "db w5 = db w" and a5:
                "af = r_form_id ` {r \<in> set (responses (db w)). participant_id r = pid} \<and> shown w5 = shown w \<or>
                 af = {} \<and> shown w5 = shown w @ [Erro_formularios_respondidos]" by simp_all
              show ?thesis
              proof (cases "?fid \<in> af")
                case True
                with run unfold Return pm pid e5 have r: "res = AlreadySubmitted" "w' = w5" by simp_all
                from True a5 have "shown w5 = shown w"
                  "\<exists>r\<in>set (responses (db w)). participant_id r = str_int n \<and> r_form_id r = ?fid"
                  using n(2) by auto
                with r db5 Cons Q n(1) show ?thesis by (intro already[of form others n mt]) simp_all
              next
                case notin: False
                obtain r6 w6 where e6: "collect_responses ?Q inp [] w5 = (r6, w6)"
                  by (cases "collect_responses ?Q inp [] w5")
                show ?thesis
                proof (cases r6)
                  case Raise
                  with run unfold Return pm pid e5 notin e6 have "res = Crashed" by simp
                  then show ?thesis by (rule crashed)
                next
                  case (Return rs)
                  note r6 = this
                  have prior: "(\<forall>r\<in>set (responses (db w)).
                        \<not> (participant_id r = str_int n \<and> r_form_id r = ?fid)) \<and> shown w5 = shown w \<or>
                      shown w5 = shown w @ [Erro_formularios_respondidos]"
                  proof (cases "shown w5 = shown w @ [Erro_formularios_respondidos]")
                    case True
                    then show ?thesis by simp
                  next
                    case False
                    with a5 have af: "af = r_form_id ` {r \<in> set (responses (db w)). participant_id r = pid}"
                      and sh5: "shown w5 = shown w" by blast+
                    have "\<not> (participant_id r = str_int n \<and> r_form_id r = ?fid)"
                      if "r \<in> set (responses (db w))" for r
                    proof
                      assume "participant_id r = str_int n \<and> r_form_id r = ?fid"
                      with that n(2) have "r \<in> {r \<in> set (responses (db w)). participant_id r = pid}"
                        "r_form_id r = ?fid" by simp_all
                      then have "?fid \<in> af" unfolding af by (metis imageI)
                      with notin show False by simp
                    qed
                    with sh5 show ?thesis by blast
                  qed
                  have fin: "(res, w') =
                      (if \<not> pressed inp then (FormShown, w6)
                       else if list_all (\<lambda>e. truthy (snd e)) rs
                       then (case insert_responses ?fid pid rs w6 of
                               (False, w7) \<Rightarrow> (Crashed, w7)
                             | (True, w7) \<Rightarrow> (Submitted, w7))
                       else (ValidationError, w6))"
                    using run unfold \<open>r4 = Return pm\<close> pm pid e5 notin e6 r6 by simp
                  show ?thesis
                  proof (cases "pressed inp \<and> list_all (\<lambda>e. truthy (snd e)) rs")
                    case False
                    with fin have "\<not> pressed inp \<and> res = FormShown \<and> w' = w6 \<or>
                       pressed inp \<and> \<not> list_all (\<lambda>e. truthy (snd e)) rs \<and> res = ValidationError \<and> w' = w6 \<or>
                       pressed inp \<and> list_all (\<lambda>e. truthy (snd e)) rs \<and> res = Submitted \<and>
                         insert_responses (f_id form) (str_int n) rs w6 = (True, w')"
                      by (auto split: if_splits)
                    with Cons Q n(1) db5 prior e6 r6 show ?thesis
                      by (intro passed[of form others n mt w5 rs w6]) simp_all
                  next
                    case True
                    obtain a7 w7 where e7: "insert_responses ?fid pid rs w6 = (a7, w7)"
                      by (cases "insert_responses ?fid pid rs w6")
                    show ?thesis
                    proof (cases a7)
                      case False
                      with fin True e7 have "res = Crashed" by simp
                      then show ?thesis by (rule crashed)
                    next
                      case a7: True
                      with fin True e7 have "res = Submitted" "w' = w7" by simp_all
                      with True e7 a7 n(2) have "\<not> pressed inp \<and> res = FormShown \<and> w' = w6 \<or>
                       pressed inp \<and> \<not> list_all (\<lambda>e. truthy (snd e)) rs \<and> res = ValidationError \<and> w' = w6 \<or>
                       pressed inp \<and> list_all (\<lambda>e. truthy (snd e)) rs \<and>
                          res = Submitted \<and> insert_responses ?fid (str_int n) rs w6 = (True, w')"
                        by simp
                      with Cons Q n(1) db5 prior e6 r6 show ?thesis
                        by (intro passed[of form others n mt w5 rs w6]) simp_all
                    qed
                  qed
                qed
              qed
            qed
          qed
        qed
      qed
    qed
  qed
qed

lemma new_shown_Nil: "shown w' = shown w @ ms \<Longrightarrow> new_shown w w' = [] \<Longrightarrow> ms = []"
  by (simp add: new_shown_def)

lemma already_submitted_when_prior:
  assumes run: "participant_form w table u inp = (res, w')"
    and avail: "res \<noteq> Crashed" "new_shown w w' = []"
    and form: "filter (\<lambda>f. f_table_name f = table) (forms_metadata (db w)) = form # others"
    and qs: "filter (\<lambda>q. q_form_id q = f_id form) (questions (db w)) \<noteq> []"
    and fb: "first_bound (db w) u = Some (n, mt)"
    and prior: "\<exists>r\<in>set (responses (db w)). participant_id r = str_int n \<and> r_form_id r = f_id form"
  shows "res = AlreadySubmitted"
  using run
proof (cases rule: participant_form_path)
  case crashed
  with avail show ?thesis by simp
next
  case not_found
  with form show ?thesis by simp
next
  case (no_questions form' others')
  with form qs show ?thesis by simp
next
  case (unauthorized form' others')
  from unauthorized(5) avail(2) have "first_bound (db w) u = None"
    using new_shown_Nil[of w' w "[Erro_recuperar_reunioes]"] by auto
  with fb show ?thesis by simp
next
  case (already form' others' n' mt')
  then show ?thesis by simp
next
  case (passed form' others' n' mt' rs w5 w6)
  from passed(1) form have ff: "form' = form" by simp
  from passed(3) fb have nn: "n' = n" by simp
  note cr = collect_responses_Return[OF passed(6)]
  have sh': "shown w' = shown w5"
  proof -
    from passed(7) consider "w' = w6" | "insert_responses (f_id form') (str_int n') rs w6 = (True, w')"
      by blast
    then show ?thesis
    proof cases
      case 1
      with cr show ?thesis by simp
    next
      case 2
      from insert_responses_True[OF this] cr show ?thesis by simp
    qed
  qed
  have "\<forall>r\<in>set (responses (db w)).
      \<not> (participant_id r = str_int n \<and> r_form_id r = f_id form)"
    using passed(5) sh' avail(2) new_shown_Nil[of w' w "[Erro_formularios_respondidos]"] ff nn
    by auto
  with prior show ?thesis by blast
qed

lemmas example_simps = image_iff participant_form_def execute_def world_of_def example_db_def empty_db_def
  get_available_meetings_def get_answered_forms_def st_error_def select_user_id_eq_def
  str_int_def str_nat.simps digit_char_def response_row_def dict_set_def Let_def
  example_input_def new_shown_def first_bound_def holds_slot_def answer_missing_def


section \<open>Preconditions of a form submission\<close>

text \<open>
  Claim C6, as stated, asks that a submission fails with \<open>AlreadySubmitted\<close> and writes
  nothing whenever a prior response row exists for the participant and the form. The run
  below refutes it: the identity \<open>u1\<close> holds number 2, a response of participant 2 to form 1
  is stored, and the query of \<^verbatim>\<open>get_answered_forms\<close> raises. The accessor shows its error
  and returns the empty set, the check of line 315 passes, and the submitted answer is
  written as a second row.
\<close>

theorem C6_submission_counterexample:
  "responses (example_db\<lparr>responses :=
        [\<lparr>r_form_id = 1, participant_id = ''2'', r_question_id = 1, answer = ''first''\<rparr>]\<rparr>)
     = [\<lparr>r_form_id = 1, participant_id = ''2'', r_question_id = 1, answer = ''first''\<rparr>] \<and>
   first_bound (example_db\<lparr>responses :=
        [\<lparr>r_form_id = 1, participant_id = ''2'', r_question_id = 1, answer = ''first''\<rparr>]\<rparr>) ''u1''
     = Some (2, ''meeting_1_a'') \<and>
   fst (participant_form
      (world_of (example_db\<lparr>responses :=
        [\<lparr>r_form_id = 1, participant_id = ''2'', r_question_id = 1, answer = ''first''\<rparr>]\<rparr>)
        [False, False, False, False, True])
      ''form_1_quiz'' ''u1'' (example_input ''again'')) = Submitted \<and>
   responses (db (snd (participant_form
      (world_of (example_db\<lparr>responses :=
        [\<lparr>r_form_id = 1, participant_id = ''2'', r_question_id = 1, answer = ''first''\<rparr>]\<rparr>)
        [False, False, False, False, True])
      ''form_1_quiz'' ''u1'' (example_input ''again''))))
     = [\<lparr>r_form_id = 1, participant_id = ''2'', r_question_id = 1, answer = ''first''\<rparr>,
        \<lparr>r_form_id = 1, participant_id = ''2'', r_question_id = 1, answer = ''again''\<rparr>] \<and>
   shown (snd (participant_form
      (world_of (example_db\<lparr>responses :=
        [\<lparr>r_form_id = 1, participant_id = ''2'', r_question_id = 1, answer = ''first''\<rparr>]\<rparr>)
        [False, False, False, False, True])
      ''form_1_quiz'' ''u1'' (example_input ''again''))) = [Erro_formularios_respondidos]"
  by (simp add: example_simps)

text \<open>
  Claim C6, amended. Take a form that exists and has at least one question, and a run
  in which no request raises: it does not end in an uncaught exception and no accessor
  error is shown. Then the page answers \<open>Unauthorized\<close> when no listed pool has a slot
  bound to the session identity; \<open>AlreadySubmitted\<close> when a response row exists for the
  form and the participant (the number found for the identity, as a string);
  \<open>ValidationError\<close> when both checks pass, the button is pressed and the answer of some
  question is missing (question ids being distinct). In each of the three cases the
  table of responses is left as it was.
\<close>

theorem C6_submission_preconditions:
  assumes run: "participant_form w table u inp = (res, w')"
    and avail: "res \<noteq> Crashed" "new_shown w w' = []"
    and form: "filter (\<lambda>f. f_table_name f = table) (forms_metadata (db w)) = form # others"
    and qs: "filter (\<lambda>q. q_form_id q = f_id form) (questions (db w)) \<noteq> []"
  shows "(first_bound (db w) u = None \<longrightarrow> res = Unauthorized) \<and>
         (\<forall>n mt. first_bound (db w) u = Some (n, mt) \<and>
            (\<exists>r\<in>set (responses (db w)). participant_id r = str_int n \<and> r_form_id r = f_id form)
            \<longrightarrow> res = AlreadySubmitted) \<and>
         (\<forall>n mt. first_bound (db w) u = Some (n, mt) \<and>
            (\<forall>r\<in>set (responses (db w)). \<not> (participant_id r = str_int n \<and> r_form_id r = f_id form)) \<and>
            pressed inp \<and>
            distinct (map q_id (filter (\<lambda>q. q_form_id q = f_id form) (questions (db w)))) \<and>
            (\<exists>q\<in>set (filter (\<lambda>q. q_form_id q = f_id form) (questions (db w))). answer_missing inp q)
            \<longrightarrow> res = ValidationError) \<and>
         (res = Unauthorized \<or> res = AlreadySubmitted \<or> res = ValidationError
            \<longrightarrow> responses (db w') = responses (db w))"
  using run
proof (cases rule: participant_form_path)
  case crashed
  with avail show ?thesis by simp
next
  case not_found
  with form show ?thesis by simp
next
  case (no_questions form' others')
  with form qs show ?thesis by simp
next
  case (unauthorized form' others')
  from unauthorized(5) avail(2) have "first_bound (db w) u = None"
    using new_shown_Nil[of w' w "[Erro_recuperar_reunioes]"] by auto
  with unauthorized show ?thesis by simp
next
  case (already form' others' n mt)
  with form have "form' = form" by simp
  with already show ?thesis by auto
next
  case (passed form' others' n mt rs w5 w6)
  from passed(1) form have ff: "form' = form" by simp
  note cr = collect_responses_Return[OF passed(6)]
  have sh': "shown w' = shown w5"
  proof -
    from passed(7) consider "w' = w6" | "insert_responses (f_id form') (str_int n) rs w6 = (True, w')"
      by blast
    then show ?thesis
    proof cases
      case 1
      with cr show ?thesis by simp
    next
      case 2
      from insert_responses_True[OF this] cr show ?thesis by simp
    qed
  qed
  have noprior: "\<forall>r\<in>set (responses (db w)).
      \<not> (participant_id r = str_int n \<and> r_form_id r = f_id form)"
    using passed(5) sh' avail(2) new_shown_Nil[of w' w "[Erro_formularios_respondidos]"] ff
    by auto
  have a: "first_bound (db w) u = None \<longrightarrow> res = Unauthorized" using passed(3) by simp
  have b: "\<forall>n' mt'. first_bound (db w) u = Some (n', mt') \<and>
            (\<exists>r\<in>set (responses (db w)). participant_id r = str_int n' \<and> r_form_id r = f_id form)
            \<longrightarrow> res = AlreadySubmitted"
    using passed(3) noprior by auto
  have c: "res = ValidationError"
    if "pressed inp"
      "distinct (map q_id (filter (\<lambda>q. q_form_id q = f_id form) (questions (db w))))"
      "q \<in> set (filter (\<lambda>q. q_form_id q = f_id form) (questions (db w)))"
      "answer_missing inp q" for q
  proof -
    from collect_responses_missing[OF passed(6)[unfolded ff] that(2,3,4)]
    obtain v where "(q_id q, v) \<in> set rs" "\<not> truthy v" by blast
    then have "\<not> list_all (\<lambda>e. truthy (snd e)) rs" unfolding list_all_iff by force
    with passed(7) that(1) show ?thesis by blast
  qed
  have d: "res = Unauthorized \<or> res = AlreadySubmitted \<or> res = ValidationError
            \<longrightarrow> responses (db w') = responses (db w)"
    using passed(7) passed(4) cr by auto
  from a b c d show ?thesis by blast
qed

theorem C6_submission_preconditions_witness:
  "participant_form
      (world_of (example_db\<lparr>responses :=
        [\<lparr>r_form_id = 1, participant_id = ''2'', r_question_id = 1, answer = ''first''\<rparr>]\<rparr>) [])
      ''form_1_quiz'' ''u1'' (example_input ''again'')
    = (AlreadySubmitted,
       \<lparr>db = example_db\<lparr>responses :=
          [\<lparr>r_form_id = 1, participant_id = ''2'', r_question_id = 1, answer = ''first''\<rparr>]\<rparr>,
        faults = [],
        trace = [(SelectFormByTable ''form_1_quiz'', True), (SelectQuestionsOf 1, True),
                 (SelectMeetings, True), (SelectSlotsOfUser ''meeting_1_a'' ''u1'', True),
                 (SelectResponsesOf ''2'', True)],
        shown = []\<rparr>) \<and>
   fst (participant_form (world_of example_db []) ''form_1_quiz'' ''u3'' (example_input ''x''))
     = Unauthorized \<and>
   fst (participant_form (world_of example_db []) ''form_1_quiz'' ''u1'' (example_input []))
     = ValidationError"
proof -
  let ?d = "example_db\<lparr>responses :=
        [\<lparr>r_form_id = 1, participant_id = ''2'', r_question_id = 1, answer = ''first''\<rparr>]\<rparr>"
  let ?r = "participant_form (world_of ?d []) ''form_1_quiz'' ''u1'' (example_input ''again'')"
  have run: "?r = (AlreadySubmitted,
       \<lparr>db = ?d, faults = [],
        trace = [(SelectFormByTable ''form_1_quiz'', True), (SelectQuestionsOf 1, True),
                 (SelectMeetings, True), (SelectSlotsOfUser ''meeting_1_a'' ''u1'', True),
                 (SelectResponsesOf ''2'', True)],
        shown = []\<rparr>)"
    by (simp add: example_simps)
  then have h1: "?r = (fst ?r, snd ?r)" and h2: "fst ?r \<noteq> Crashed" by simp_all
  have h3: "new_shown (world_of ?d []) (snd ?r) = []"
    unfolding run by (simp add: new_shown_def world_of_def)
  have h4: "filter (\<lambda>f. f_table_name f = ''form_1_quiz'') (forms_metadata (db (world_of ?d [])))
     = \<lparr>f_id = 1, form_name = ''Quiz'', f_table_name = ''form_1_quiz'', f_created_at = ''t0''\<rparr> # []"
    by (simp add: world_of_def example_db_def empty_db_def)
  have h5: "filter (\<lambda>q. q_form_id q = f_id \<lparr>f_id = 1, form_name = ''Quiz'',
        f_table_name = ''form_1_quiz'', f_created_at = ''t0''\<rparr>) (questions (db (world_of ?d []))) \<noteq> []"
    by (simp add: world_of_def example_db_def empty_db_def)
  have fb: "first_bound (db (world_of ?d [])) ''u1'' = Some (2, ''meeting_1_a'')"
    by (simp add: example_simps)
  have prior: "\<exists>r\<in>set (responses (db (world_of ?d []))). participant_id r = str_int 2 \<and>
      r_form_id r = f_id \<lparr>f_id = 1, form_name = ''Quiz'',
        f_table_name = ''form_1_quiz'', f_created_at = ''t0''\<rparr>"
    by (simp add: example_simps)
  from C6_submission_preconditions [OF h1 h2 h3 h4 h5] fb prior
  have "fst ?r = AlreadySubmitted" by blast
  moreover have "fst (participant_form (world_of example_db []) ''form_1_quiz'' ''u3'' (example_input ''x''))
     = Unauthorized"
    by (simp add: example_simps)
  moreover have "fst (participant_form (world_of example_db []) ''form_1_quiz'' ''u1'' (example_input []))
     = ValidationError"
    by (simp add: example_simps)
  ultimately show ?thesis using run by simp
qed

section \<open>How a response names its participant\<close>

text \<open>
  Claim C10. When a submission succeeds, the rows it appends to the responses carry as
  \<open>participant_id\<close> the string of the number of the first slot bound to the session
  identity in the first listed pool that has one, not the identity itself. Hence any
  identity for which that lookup gives the same number, in whichever pool, is afterwards
  told \<open>AlreadySubmitted\<close> for this form (in a run in which no request raises).
\<close>

theorem C10_participant_identified_by_number:
  assumes "participant_form w table u inp = (Submitted, w')"
  shows "\<exists>form others n mt rs.
           filter (\<lambda>f. f_table_name f = table) (forms_metadata (db w)) = form # others \<and>
           first_bound (db w) u = Some (n, mt) \<and>
           db w' = (db w)\<lparr>responses := responses (db w) @
                      map (response_row (f_id form) (str_int n)) rs\<rparr> \<and>
           (\<forall>u2 mt2 w2 inp2 res2 w2'.
              rs \<noteq> [] \<and> db w2 = db w' \<and> first_bound (db w') u2 = Some (n, mt2) \<and>
              participant_form w2 table u2 inp2 = (res2, w2') \<and>
              res2 \<noteq> Crashed \<and> new_shown w2 w2' = []
              \<longrightarrow> res2 = AlreadySubmitted)"
  using assms
proof (cases rule: participant_form_path)
  case (passed form others n mt rs w5 w6)
  from passed(7) have ins: "insert_responses (f_id form) (str_int n) rs w6 = (True, w')" by simp
  note cr = collect_responses_Return[OF passed(6)]
  from insert_responses_True[OF ins] cr passed(4)
  have dbw': "db w' = (db w)\<lparr>responses := responses (db w) @
                      map (response_row (f_id form) (str_int n)) rs\<rparr>" by simp
  have later: "res2 = AlreadySubmitted"
    if "rs \<noteq> []" "db w2 = db w'" "first_bound (db w') u2 = Some (n, mt2)"
       "participant_form w2 table u2 inp2 = (res2, w2')" "res2 \<noteq> Crashed" "new_shown w2 w2' = []"
    for u2 mt2 w2 inp2 res2 w2'
  proof -
    from that(1) obtain e where e: "e \<in> set rs" by (cases rs) auto
    let ?row = "response_row (f_id form) (str_int n) e"
    have row: "?row \<in> set (responses (db w2))" "participant_id ?row = str_int n"
      "r_form_id ?row = f_id form"
      using e that(2) dbw' by (simp_all add: response_row_def)
    have F2: "filter (\<lambda>f. f_table_name f = table) (forms_metadata (db w2)) = form # others"
      using passed(1) that(2) dbw' by simp
    have Q2: "filter (\<lambda>q. q_form_id q = f_id form) (questions (db w2)) \<noteq> []"
      using passed(2) that(2) dbw' by simp
    have fb: "first_bound (db w2) u2 = Some (n, mt2)" using that(2,3) by simp
    from row have "\<exists>r\<in>set (responses (db w2)). participant_id r = str_int n \<and> r_form_id r = f_id form"
      by blast
    with that(4,5,6) F2 Q2 fb show ?thesis by (rule already_submitted_when_prior)
  qed
  from passed(1,3) dbw' later show ?thesis by blast
qed simp_all


theorem C10_participant_identified_by_number_witness:
  "participant_form (world_of example_db []) ''form_1_quiz'' ''u1'' (example_input ''hello'')
    = (Submitted,
       \<lparr>db = example_db\<lparr>responses :=
          [\<lparr>r_form_id = 1, participant_id = ''2'', r_question_id = 1, answer = ''hello''\<rparr>]\<rparr>,
        faults = [],
        trace = [(SelectFormByTable ''form_1_quiz'', True), (SelectQuestionsOf 1, True),
                 (SelectMeetings, True), (SelectSlotsOfUser ''meeting_1_a'' ''u1'', True),
                 (SelectResponsesOf ''2'', True),
                 (InsertResponse \<lparr>r_form_id = 1, participant_id = ''2'', r_question_id = 1,
                    answer = ''hello''\<rparr>, True)],
        shown = []\<rparr>) \<and>
   first_bound example_db ''u1'' = Some (2, ''meeting_1_a'') \<and>
   first_bound example_db ''u2'' = Some (2, ''meeting_2_b'') \<and>
   fst (participant_form
      (world_of (example_db\<lparr>responses :=
          [\<lparr>r_form_id = 1, participant_id = ''2'', r_question_id = 1, answer = ''hello''\<rparr>]\<rparr>) [])
      ''form_1_quiz'' ''u2'' (example_input ''other'')) = AlreadySubmitted \<and>
   (\<exists>n mt rs. first_bound example_db ''u1'' = Some (n, mt) \<and>
      responses (db (snd (participant_form (world_of example_db []) ''form_1_quiz'' ''u1''
         (example_input ''hello'')))) = map (response_row 1 (str_int n)) rs)"
proof -
  let ?r = "participant_form (world_of example_db []) ''form_1_quiz'' ''u1'' (example_input ''hello'')"
  have run: "?r = (Submitted,
       \<lparr>db = example_db\<lparr>responses :=
          [\<lparr>r_form_id = 1, participant_id = ''2'', r_question_id = 1, answer = ''hello''\<rparr>]\<rparr>,
        faults = [],
        trace = [(SelectFormByTable ''form_1_quiz'', True), (SelectQuestionsOf 1, True),
                 (SelectMeetings, True), (SelectSlotsOfUser ''meeting_1_a'' ''u1'', True),
                 (SelectResponsesOf ''2'', True),
                 (InsertResponse \<lparr>r_form_id = 1, participant_id = ''2'', r_question_id = 1,
                    answer = ''hello''\<rparr>, True)],
        shown = []\<rparr>)"
    by (simp add: example_simps)
  then have h: "?r = (Submitted, snd ?r)" by simp
  from C10_participant_identified_by_number [OF h]
  obtain form others n mt rs where
    "filter (\<lambda>f. f_table_name f = ''form_1_quiz'') (forms_metadata (db (world_of example_db [])))
       = form # others"
    "first_bound (db (world_of example_db [])) ''u1'' = Some (n, mt)"
    "db (snd ?r) = (db (world_of example_db []))\<lparr>responses :=
        responses (db (world_of example_db [])) @ map (response_row (f_id form) (str_int n)) rs\<rparr>"
    by blast
  then have "\<exists>n mt rs. first_bound example_db ''u1'' = Some (n, mt) \<and>
      responses (db (snd ?r)) = map (response_row 1 (str_int n)) rs"
    by (auto simp: world_of_def example_db_def empty_db_def)
  moreover have "first_bound example_db ''u1'' = Some (2, ''meeting_1_a'')"
    "first_bound example_db ''u2'' = Some (2, ''meeting_2_b'')"
    by (simp_all add: example_simps)
  moreover have "fst (participant_form
      (world_of (example_db\<lparr>responses :=
          [\<lparr>r_form_id = 1, participant_id = ''2'', r_question_id = 1, answer = ''hello''\<rparr>]\<rparr>) [])
      ''form_1_quiz'' ''u2'' (example_input ''other'')) = AlreadySubmitted"
    by (simp add: example_simps)
  ultimately show ?thesis using run by simp
qed

section \<open>The grading scenario, evaluated\<close>

lemmas scenario_simps = scenario_form_def scenario_meeting_def scenario_number_def
  scenario_submit_def scenario_statistics_def scenario_submit_blue_def
  scenario_statistics_blue_def create_form_def create_meeting_table_def
  create_meeting_try_def check_table_exists_def allocation_block_def
  select_assigned_false_def update_number_eq_def random_choice_def
  statistics_responses_def grade_response_def get_forms_for_meeting_def
  batches.simps batch_size_def unassigned_row_def upto_rec1


text \<open>Had the participant chosen Blue, the verdict would be the other one.\<close>

lemma grading_scenario_other_choice:
  "fst scenario_statistics_blue = Return
     [\<lparr>Participante = ''2'', Formulario = ''Quiz'', Pergunta = ''Your name'',
       Resposta = ''hello'', Correta = ''N/A''\<rparr>,
      \<lparr>Participante = ''2'', Formulario = ''Quiz'', Pergunta = ''Colour'',
       Resposta = ''Blue'', Correta = incorreta\<rparr>]"
  by (simp add: scenario_simps example_simps)

end
